theory Spec2Isabelle
  imports Complex_Main "HOL-Library.Word"
begin

unbundle bit_operations_syntax

section \<open>Data model of halui.cc\<close>

text \<open>
  The C types: \<open>int\<close> is a 32-bit word read in two's complement (\<open>sint\<close>), so that
  \<open>++emcCommandSerialNumber\<close> wraps as it does on the machine; \<open>hal_bit_t\<close> is an
  unsigned char. Function return codes (0 and -1) are plain integers.

  A \<open>double\<close> variable is represented by the real number it holds. Comparisons of
  doubles are then comparisons of reals, and the loop of \<open>tryNml\<close> subtracts 1.0 from
  10.0, which is exact. The waits add 0.1 to a counter, which is not: there the counter
  is a binary floating-point number and the addition rounds as the machine does (see
  \<open>double_add\<close>). Where the source divides by a value that may be zero, no statement
  uses the quotient.
\<close>

type_synonym c_int = "32 word"
type_synonym hal_bit_t = "8 word"

text \<open>Enumerations of headers that the component includes (rcs.hh, emc.hh, canon.hh).
  \<open>NML_other\<close> and \<open>CANON_UNITS_other\<close> stand for every value of the underlying integer
  that is none of the named enumerators.\<close>

datatype RCS_STATUS = UNINITIALIZED_STATUS | RCS_DONE | RCS_EXEC | RCS_ERROR

datatype EMC_TASK_STATE =
  EMC_TASK_STATE_ESTOP | EMC_TASK_STATE_ESTOP_RESET | EMC_TASK_STATE_OFF | EMC_TASK_STATE_ON

datatype CANON_UNITS =
  CANON_UNITS_INCHES | CANON_UNITS_MM | CANON_UNITS_CM | CANON_UNITS_other

datatype NMLTYPE = NML_error | NML_no_data | EMC_STAT_TYPE | NML_other

datatype RCS_PRINT_DESTINATION_TYPE = RCS_PRINT_TO_STDOUT | RCS_PRINT_TO_NULL

text \<open>The fields of \<open>EMC_STAT\<close> that the component reads.\<close>

record EMC_STAT =
  echo_serial_number :: c_int
  status :: RCS_STATUS
  task_state :: EMC_TASK_STATE
  task_programUnits :: CANON_UNITS
  motion_traj_linearUnits :: real

datatype emcWaitType_t = EMC_WAIT_NONE | EMC_WAIT_RECEIVED | EMC_WAIT_DONE

datatype linearUnitConversion_t =
  LINEAR_UNITS_CUSTOM | LINEAR_UNITS_AUTO | LINEAR_UNITS_MM | LINEAR_UNITS_INCH | LINEAR_UNITS_CM

record halui_str =
  machine_on :: hal_bit_t
  machine_off :: hal_bit_t
  machine_is_on :: hal_bit_t

record local_halui_str =
  old_machine_on :: hal_bit_t
  old_machine_off :: hal_bit_t
  old_machine_is_on :: hal_bit_t

datatype channel = Command_channel | Status_channel | Error_channel

datatype NML_msg = EMC_TASK_SET_STATE EMC_TASK_STATE c_int | EMC_NULL c_int

text \<open>What the process does to the outside, in order.\<close>

datatype event =
    Esleep real
  | Set_rcs_print_destination RCS_PRINT_DESTINATION_TYPE
  | New_channel channel
  | Delete_channel channel
  | Cmd_write NML_msg
  | Rcs_print_error

text \<open>
  The surroundings of the process, which the source reaches through the NML library and
  through headers that are not part of the component: the \<open>n\<close>-th construction of each
  channel (whether it is valid, what its first \<open>peek\<close> returns, the status buffer it
  maps), the \<open>n\<close>-th call of \<open>updateStatus\<close> (validity of the channel, type returned by
  \<open>peek\<close>, the status message that \<open>peek\<close> copies into the local buffer), and the
  values of \<open>EMC_DEBUG_NML\<close> and \<open>EMC_IO_CYCLE_TIME\<close>.
\<close>

record world =
  cmd_channel_valid :: "nat \<Rightarrow> bool"
  stat_channel_valid :: "nat \<Rightarrow> bool"
  stat_channel_peek :: "nat \<Rightarrow> NMLTYPE"
  stat_channel_mem :: "nat \<Rightarrow> EMC_STAT"
  err_channel_valid :: "nat \<Rightarrow> bool"
  poll_valid :: "nat \<Rightarrow> bool"
  poll_peek :: "nat \<Rightarrow> NMLTYPE"
  poll_mem :: "nat \<Rightarrow> EMC_STAT"
  EMC_DEBUG_NML :: c_int
  EMC_IO_CYCLE_TIME :: real

text \<open>
  The globals of halui.cc. A channel pointer is modelled by whether it is non-null;
  \<open>emcStatus\<close> is \<open>None\<close> when null and otherwise holds the contents of the local status
  buffer it points to. The counters number the calls into the surroundings.
\<close>

record halui =
  emcCommandBuffer :: bool
  emcStatusBuffer :: bool
  emcStatus :: "EMC_STAT option"
  emcErrorBuffer :: bool
  emcCommandSerialNumber :: c_int
  saveEmcCommandSerialNumber :: c_int
  emcTimeout :: real
  emcWaitType :: emcWaitType_t
  linearUnitConversion :: linearUnitConversion_t
  EMC_DEBUG :: c_int
  halui_data :: halui_str
  old_halui_data :: local_halui_str
  n_cmd_new :: nat
  n_stat_new :: nat
  n_err_new :: nat
  n_polls :: nat
  trace :: "event list"

text \<open>How a call ends: it returns, the process exits with a status, or a null pointer
  is dereferenced. A call that never ends has no outcome (\<open>None\<close> below).\<close>

datatype 'a outcome = Return 'a | Exit int | Null_deref

definition emit :: "event \<Rightarrow> halui \<Rightarrow> halui" where
  "emit e s = s\<lparr>trace := trace s @ [e]\<rparr>"

definition esleep :: "real \<Rightarrow> halui \<Rightarrow> halui" where
  "esleep d s = emit (Esleep d) s"

definition set_rcs_print_destination :: "RCS_PRINT_DESTINATION_TYPE \<Rightarrow> halui \<Rightarrow> halui" where
  "set_rcs_print_destination d s = emit (Set_rcs_print_destination d) s"

section \<open>Channel establishment\<close>

definition emcTaskNmlGet :: "world \<Rightarrow> halui \<Rightarrow> int \<times> halui" where
  "emcTaskNmlGet w s =
    (let (retval, s1) =
       (if \<not> emcCommandBuffer s then
          (let k = n_cmd_new s;
               s' = emit (New_channel Command_channel) (s\<lparr>n_cmd_new := Suc k\<rparr>)
           in if \<not> cmd_channel_valid w k
              then (-1, (emit (Delete_channel Command_channel) s')\<lparr>emcCommandBuffer := False\<rparr>)
              else (0, s'\<lparr>emcCommandBuffer := True\<rparr>))
        else (0, s))
     in if \<not> emcStatusBuffer s1 then
          (let k = n_stat_new s1;
               s' = emit (New_channel Status_channel) (s1\<lparr>n_stat_new := Suc k\<rparr>)
           in if \<not> stat_channel_valid w k \<or> EMC_STAT_TYPE \<noteq> stat_channel_peek w k
              then (-1, (emit (Delete_channel Status_channel) s')
                          \<lparr>emcStatusBuffer := False, emcStatus := None\<rparr>)
              else (retval, s'\<lparr>emcStatusBuffer := True,
                                emcStatus := Some (stat_channel_mem w k)\<rparr>))
        else (retval, s1))"

definition emcErrorNmlGet :: "world \<Rightarrow> halui \<Rightarrow> int \<times> halui" where
  "emcErrorNmlGet w s =
    (if \<not> emcErrorBuffer s then
       (let k = n_err_new s;
            s' = emit (New_channel Error_channel) (s\<lparr>n_err_new := Suc k\<rparr>)
        in if \<not> err_channel_valid w k
           then (-1, (emit (Delete_channel Error_channel) s')\<lparr>emcErrorBuffer := False\<rparr>)
           else (0, s'\<lparr>emcErrorBuffer := True\<rparr>))
     else (0, s))"

definition RETRY_TIME :: real where
  "RETRY_TIME = 10"

definition RETRY_INTERVAL :: real where
  "RETRY_INTERVAL = 1"

text \<open>
  The condition \<open>EMC_DEBUG & EMC_DEBUG_NML == 0\<close> as C++ parses it: \<open>==\<close> binds tighter
  than \<open>&\<close>, so it is \<open>EMC_DEBUG & (EMC_DEBUG_NML == 0)\<close>, tested against zero.
\<close>

definition nml_debug_off :: "world \<Rightarrow> halui \<Rightarrow> bool" where
  "nml_debug_off w s \<longleftrightarrow> (EMC_DEBUG s AND (if EMC_DEBUG_NML w = 0 then 1 else 0)) \<noteq> 0"

text \<open>
  The two do-while loops of \<open>tryNml\<close> are the same loop around \<open>emcTaskNmlGet\<close> and
  around \<open>emcErrorNmlGet\<close>; \<open>get\<close> is that call. The result is the flag \<open>good\<close>.
\<close>

function tryNml_do_while ::
  "(world \<Rightarrow> halui \<Rightarrow> int \<times> halui) \<Rightarrow> world \<Rightarrow> real \<Rightarrow> halui \<Rightarrow> bool \<times> halui" where
  "tryNml_do_while get w endv s =
    (case get w s of (r, s1) \<Rightarrow>
       if r = 0 then (True, s1)
       else (let s2 = esleep RETRY_INTERVAL s1;
                 endv' = endv - RETRY_INTERVAL
             in if endv' > 0 then tryNml_do_while get w endv' s2 else (False, s2)))"
  by pat_completeness auto
termination
  by (relation "measure (\<lambda>(get, w, endv, s). nat \<lceil>endv\<rceil>)")
     (auto simp: RETRY_INTERVAL_def)

declare tryNml_do_while.simps [simp del]

definition tryNml :: "world \<Rightarrow> halui \<Rightarrow> int \<times> halui" where
  "tryNml w s =
    (let s1 = (if nml_debug_off w s then set_rcs_print_destination RCS_PRINT_TO_NULL s else s);
         (good, s2) = tryNml_do_while emcTaskNmlGet w RETRY_TIME s1;
         s3 = (if nml_debug_off w s2 then set_rcs_print_destination RCS_PRINT_TO_STDOUT s2
               else s2)
     in if \<not> good then (-1, s3)
        else
         (let s4 = (if nml_debug_off w s3
                    then set_rcs_print_destination RCS_PRINT_TO_NULL s3 else s3);
              (good, s5) = tryNml_do_while emcErrorNmlGet w RETRY_TIME s4;
              s6 = (if nml_debug_off w s5
                    then set_rcs_print_destination RCS_PRINT_TO_STDOUT s5 else s5)
          in if \<not> good then (-1, s6) else (0, s6)))"

section \<open>Status polling and the blocking waits\<close>

text \<open>
  \<open>updateStatus\<close>: \<open>peek\<close> leaves the local buffer alone when it reports an error or
  no new data, and overwrites it with the message it found otherwise.
\<close>

definition updateStatus :: "world \<Rightarrow> halui \<Rightarrow> int \<times> halui" where
  "updateStatus w s =
    (let k = n_polls s; s1 = s\<lparr>n_polls := Suc k\<rparr>
     in if emcStatus s = None \<or> \<not> emcStatusBuffer s \<or> \<not> poll_valid w k then (-1, s1)
        else (case poll_peek w k of
                NML_error \<Rightarrow> (-1, s1)
              | NML_no_data \<Rightarrow> (0, s1)
              | EMC_STAT_TYPE \<Rightarrow> (0, s1\<lparr>emcStatus := Some (poll_mem w k)\<rparr>)
              | NML_other \<Rightarrow> (-1, s1\<lparr>emcStatus := Some (poll_mem w k)\<rparr>)))"

text \<open>
  The counter of the wait loops. \<open>Double m e\<close> is the number \<open>m * 2 ^ e\<close>.
  \<open>double_add\<close> is the addition of IEEE 754 binary64 in the default rounding mode: the
  exact sum, rounded to 53 significant bits, to the nearest value and to the even one of
  two nearest. The exponent range is not bounded here: overflow would need a sum near
  \<open>2 ^ 1024\<close>, and a sum of two doubles that is too small to be normal is exact.
\<close>

datatype double = Double (mantissa: int) (exponent: int)

definition dval :: "double \<Rightarrow> real" where
  "dval d =
     (if 0 \<le> exponent d then of_int (mantissa d) * 2 ^ nat (exponent d)
      else of_int (mantissa d) / 2 ^ nat (- exponent d))"

function bit_length :: "nat \<Rightarrow> nat" where
  "bit_length n = (if n = 0 then 0 else Suc (bit_length (n div 2)))"
  by pat_completeness auto
termination
  by (relation "measure id") auto

declare bit_length.simps [simp del]

definition round_to_double :: "int \<Rightarrow> int \<Rightarrow> double" where
  "round_to_double m e =
     (let k = bit_length (nat \<bar>m\<bar>) - 53
      in if k = 0 then Double m e
         else
          (let q = m div 2 ^ k; r = m mod 2 ^ k; h = 2 ^ (k - 1);
               q' = (if r < h then q else if h < r then q + 1
                     else if even q then q else q + 1)
           in Double q' (e + int k)))"

definition double_add :: "double \<Rightarrow> double \<Rightarrow> double" where
  "double_add a b =
     (let e = min (exponent a) (exponent b)
      in round_to_double
           (mantissa a * 2 ^ nat (exponent a - e) + mantissa b * 2 ^ nat (exponent b - e)) e)"

definition double_zero :: double where
  "double_zero = Double 0 0"

text \<open>The literal 0.1: the double nearest to one tenth, \<open>0x3FB999999999999A\<close>.\<close>

definition EMC_COMMAND_DELAY :: double where
  "EMC_COMMAND_DELAY = Double 3602879701896397 (- 55)"

text \<open>Sequencing of calls that may exit, fault or never end.\<close>

definition and_then ::
  "('a outcome \<times> halui) option \<Rightarrow> ('a \<Rightarrow> halui \<Rightarrow> ('b outcome \<times> halui) option)
     \<Rightarrow> ('b outcome \<times> halui) option" where
  "and_then m f =
    (case m of
       None \<Rightarrow> None
     | Some (Return x, s) \<Rightarrow> f x s
     | Some (Exit c, s) \<Rightarrow> Some (Exit c, s)
     | Some (Null_deref, s) \<Rightarrow> Some (Null_deref, s))"

text \<open>The while loop of \<open>emcCommandWaitReceived\<close>; \<open>endv\<close> is the local \<open>end\<close>.\<close>

partial_function (option) emcCommandWaitReceived_while ::
  "world \<Rightarrow> c_int \<Rightarrow> double \<Rightarrow> halui \<Rightarrow> (int outcome \<times> halui) option" where
  "emcCommandWaitReceived_while w serial_number endv s =
    (if emcTimeout s \<le> 0 \<or> dval endv < emcTimeout s then
       (case updateStatus w s of (r, s1) \<Rightarrow>
          (case emcStatus s1 of
             None \<Rightarrow> Some (Null_deref, s1)
           | Some st \<Rightarrow>
               if echo_serial_number st = serial_number then Some (Return 0, s1)
               else emcCommandWaitReceived_while w serial_number
                      (double_add endv EMC_COMMAND_DELAY)
                      (esleep (dval EMC_COMMAND_DELAY) s1)))
     else Some (Return (-1), s))"

definition emcCommandWaitReceived ::
  "world \<Rightarrow> c_int \<Rightarrow> halui \<Rightarrow> (int outcome \<times> halui) option" where
  "emcCommandWaitReceived w serial_number s =
     emcCommandWaitReceived_while w serial_number double_zero s"

text \<open>The second while loop of \<open>emcCommandWaitDone\<close>.\<close>

partial_function (option) emcCommandWaitDone_while ::
  "world \<Rightarrow> double \<Rightarrow> halui \<Rightarrow> (int outcome \<times> halui) option" where
  "emcCommandWaitDone_while w endv s =
    (if emcTimeout s \<le> 0 \<or> dval endv < emcTimeout s then
       (case updateStatus w s of (r, s1) \<Rightarrow>
          (case emcStatus s1 of
             None \<Rightarrow> Some (Null_deref, s1)
           | Some st \<Rightarrow>
               if status st = RCS_DONE then Some (Return 0, s1)
               else if status st = RCS_ERROR then Some (Return (-1), s1)
               else emcCommandWaitDone_while w
                      (double_add endv EMC_COMMAND_DELAY)
                      (esleep (dval EMC_COMMAND_DELAY) s1)))
     else Some (Return (-1), s))"

definition emcCommandWaitDone ::
  "world \<Rightarrow> c_int \<Rightarrow> halui \<Rightarrow> (int outcome \<times> halui) option" where
  "emcCommandWaitDone w serial_number s =
     and_then (emcCommandWaitReceived w serial_number s)
       (\<lambda>r s1. if r \<noteq> 0 then Some (Return (-1), s1)
               else emcCommandWaitDone_while w double_zero s1)"

text \<open>\<open>thisQuit\<close> ends in \<open>exit(0)\<close>: it has no \<open>Return\<close> outcome.\<close>

definition thisQuit :: "world \<Rightarrow> halui \<Rightarrow> (unit outcome \<times> halui) option" where
  "thisQuit w s =
    and_then (if emcStatusBuffer s
              then emcCommandWaitReceived w (emcCommandSerialNumber s) s
              else Some (Return 0, s))
      (\<lambda>r s1.
        (let s2 = (if emcCommandBuffer s1
                   then emit (Cmd_write (EMC_NULL (saveEmcCommandSerialNumber s1))) s1
                   else s1);
             s3 = (if emcErrorBuffer s2
                   then (emit (Delete_channel Error_channel) s2)\<lparr>emcErrorBuffer := False\<rparr>
                   else s2);
             s4 = (if emcStatusBuffer s3
                   then (emit (Delete_channel Status_channel) s3)
                          \<lparr>emcStatusBuffer := False, emcStatus := None\<rparr>
                   else s3);
             s5 = (if emcCommandBuffer s4
                   then (emit (Delete_channel Command_channel) s4)\<lparr>emcCommandBuffer := False\<rparr>
                   else s4)
         in Some (Exit 0, s5)))"

section \<open>Unit conversion\<close>

definition INCH_PER_MM :: real where
  "INCH_PER_MM = 1 / (254 / 10)"

definition CM_PER_MM :: real where
  "CM_PER_MM = 1 / 10"

definition convertLinearUnits :: "halui \<Rightarrow> real \<Rightarrow> real outcome" where
  "convertLinearUnits s u =
    (case emcStatus s of
       None \<Rightarrow> Null_deref
     | Some st \<Rightarrow>
        (let in_mm = u / motion_traj_linearUnits st
         in case linearUnitConversion s of
              LINEAR_UNITS_MM \<Rightarrow> Return in_mm
            | LINEAR_UNITS_INCH \<Rightarrow> Return (in_mm * INCH_PER_MM)
            | LINEAR_UNITS_CM \<Rightarrow> Return (in_mm * CM_PER_MM)
            | LINEAR_UNITS_AUTO \<Rightarrow>
               (case task_programUnits st of
                  CANON_UNITS_MM \<Rightarrow> Return in_mm
                | CANON_UNITS_INCHES \<Rightarrow> Return (in_mm * INCH_PER_MM)
                | CANON_UNITS_CM \<Rightarrow> Return (in_mm * CM_PER_MM)
                | CANON_UNITS_other \<Rightarrow> Return u)
            | LINEAR_UNITS_CUSTOM \<Rightarrow> Return u))"

section \<open>Dispatch\<close>

definition sendMachineOn :: "world \<Rightarrow> halui \<Rightarrow> (int outcome \<times> halui) option" where
  "sendMachineOn w s =
    (let s1 = s\<lparr>emcCommandSerialNumber := emcCommandSerialNumber s + 1\<rparr>
     in if \<not> emcCommandBuffer s1 then Some (Null_deref, s1)
        else
         (let s2 = emit (Cmd_write (EMC_TASK_SET_STATE EMC_TASK_STATE_ON
                                      (emcCommandSerialNumber s1))) s1
          in if emcWaitType s2 = EMC_WAIT_RECEIVED
             then emcCommandWaitReceived w (emcCommandSerialNumber s2) s2
             else if emcWaitType s2 = EMC_WAIT_DONE
             then emcCommandWaitDone w (emcCommandSerialNumber s2) s2
             else Some (Return 0, s2)))"

definition sendMachineOff :: "world \<Rightarrow> halui \<Rightarrow> (int outcome \<times> halui) option" where
  "sendMachineOff w s =
    (let s1 = s\<lparr>emcCommandSerialNumber := emcCommandSerialNumber s + 1\<rparr>
     in if \<not> emcCommandBuffer s1 then Some (Null_deref, s1)
        else
         (let s2 = emit (Cmd_write (EMC_TASK_SET_STATE EMC_TASK_STATE_OFF
                                      (emcCommandSerialNumber s1))) s1
          in if emcWaitType s2 = EMC_WAIT_RECEIVED
             then emcCommandWaitReceived w (emcCommandSerialNumber s2) s2
             else if emcWaitType s2 = EMC_WAIT_DONE
             then emcCommandWaitDone w (emcCommandSerialNumber s2) s2
             else Some (Return 0, s2)))"

section \<open>Pin synchronisation and the main program\<close>

definition hal_init_pins :: "halui \<Rightarrow> halui" where
  "hal_init_pins s =
     s\<lparr>halui_data := (halui_data s)\<lparr>machine_on := 0, machine_off := 0\<rparr>,
       old_halui_data := (old_halui_data s)\<lparr>old_machine_on := 0, old_machine_off := 0\<rparr>\<rparr>"

definition check_hal_changes :: "world \<Rightarrow> halui \<Rightarrow> (unit outcome \<times> halui) option" where
  "check_hal_changes w s =
    and_then
      (if machine_on (halui_data s) \<noteq> old_machine_on (old_halui_data s) then
         and_then (if machine_on (halui_data s) \<noteq> 0 then sendMachineOn w s
                   else Some (Return 0, s))
           (\<lambda>r s1. Some (Return (),
              s1\<lparr>old_halui_data :=
                   (old_halui_data s1)\<lparr>old_machine_on := machine_on (halui_data s1)\<rparr>\<rparr>))
       else Some (Return (), s))
      (\<lambda>u s2.
        if machine_off (halui_data s2) \<noteq> old_machine_off (old_halui_data s2) then
          and_then (if machine_off (halui_data s2) \<noteq> 0 then sendMachineOff w s2
                    else Some (Return 0, s2))
            (\<lambda>r s3. Some (Return (),
               s3\<lparr>old_halui_data :=
                    (old_halui_data s3)\<lparr>old_machine_off := machine_off (halui_data s3)\<rparr>\<rparr>))
        else Some (Return (), s2))"

definition modify_hal_pins :: "halui \<Rightarrow> unit outcome \<times> halui" where
  "modify_hal_pins s =
    (case emcStatus s of
       None \<Rightarrow> (Null_deref, s)
     | Some st \<Rightarrow>
        if task_state st = EMC_TASK_STATE_ON
        then (Return (), s\<lparr>halui_data := (halui_data s)\<lparr>machine_is_on := 1\<rparr>\<rparr>)
        else (Return (), s\<lparr>halui_data := (halui_data s)\<lparr>machine_is_on := 0\<rparr>\<rparr>))"

text \<open>
  \<open>main\<close> from ``init NML'' up to the loop. Argument and ini-file processing happen
  before and only set the globals the state starts with; \<open>halui_hal_init\<close> registers the
  pins with HAL and changes none of the globals modelled here.
\<close>

definition main_startup :: "world \<Rightarrow> halui \<Rightarrow> (unit outcome \<times> halui) option" where
  "main_startup w s =
    (case tryNml w s of (r, s1) \<Rightarrow>
       if r \<noteq> 0 then
         and_then (thisQuit w (emit Rcs_print_error s1)) (\<lambda>u s2. Some (Exit 1, s2))
       else
        (let s2 = hal_init_pins s1
         in case updateStatus w s2 of (r', s3) \<Rightarrow>
              (case emcStatus s3 of
                 None \<Rightarrow> Some (Null_deref, s3)
               | Some st \<Rightarrow>
                   Some (Return (),
                     s3\<lparr>emcCommandSerialNumber := echo_serial_number st,
                        saveEmcCommandSerialNumber := echo_serial_number st\<rparr>))))"

text \<open>One pass of the body of \<open>while (!done)\<close>.\<close>

definition main_loop_body :: "world \<Rightarrow> halui \<Rightarrow> (unit outcome \<times> halui) option" where
  "main_loop_body w s =
    and_then (check_hal_changes w s)
      (\<lambda>u s1. and_then (Some (modify_hal_pins s1))
        (\<lambda>u s2. Some (Return (), snd (updateStatus w (esleep (EMC_IO_CYCLE_TIME w) s2)))))"

text \<open>
  The input pins are HAL memory that other components write. \<open>main_loop_cycles\<close> runs
  the loop body once per sample of the two input pins, each sample being written before
  the pass that reads it.
\<close>

definition hal_write_inputs :: "hal_bit_t \<times> hal_bit_t \<Rightarrow> halui \<Rightarrow> halui" where
  "hal_write_inputs p s =
     s\<lparr>halui_data := (halui_data s)\<lparr>machine_on := fst p, machine_off := snd p\<rparr>\<rparr>"

fun main_loop_cycles ::
  "world \<Rightarrow> (hal_bit_t \<times> hal_bit_t) list \<Rightarrow> halui \<Rightarrow> (unit outcome \<times> halui) option" where
  "main_loop_cycles w [] s = Some (Return (), s)"
| "main_loop_cycles w (p # ps) s =
     and_then (main_loop_body w (hal_write_inputs p s)) (\<lambda>u s1. main_loop_cycles w ps s1)"

text \<open>\<open>main\<close> from ``init NML'' on, the loop making one pass per sample.\<close>

definition main_run ::
  "world \<Rightarrow> (hal_bit_t \<times> hal_bit_t) list \<Rightarrow> halui \<Rightarrow> (unit outcome \<times> halui) option" where
  "main_run w ps s = and_then (main_startup w s) (\<lambda>u s1. main_loop_cycles w ps s1)"

section \<open>Notions used to state the properties\<close>

text \<open>One unsuccessful pass of a wait loop: a poll, then the sleep.\<close>

definition poll_and_sleep :: "world \<Rightarrow> halui \<Rightarrow> halui" where
  "poll_and_sleep w s = esleep (dval EMC_COMMAND_DELAY) (snd (updateStatus w s))"

text \<open>The counter \<open>end\<close> of a wait loop after \<open>n\<close> passes, having started at \<open>e\<close>.\<close>

fun wait_counter :: "double \<Rightarrow> nat \<Rightarrow> double" where
  "wait_counter e 0 = e"
| "wait_counter e (Suc n) = wait_counter (double_add e EMC_COMMAND_DELAY) n"

text \<open>What the poll number \<open>i\<close> (counting from 0) of a wait started in \<open>s\<close> observes.\<close>

definition echo_at :: "world \<Rightarrow> halui \<Rightarrow> nat \<Rightarrow> c_int option" where
  "echo_at w s i =
     map_option echo_serial_number
       (emcStatus (snd (updateStatus w ((poll_and_sleep w ^^ i) s))))"

definition status_at :: "world \<Rightarrow> halui \<Rightarrow> nat \<Rightarrow> RCS_STATUS option" where
  "status_at w s i =
     map_option status
       (emcStatus (snd (updateStatus w ((poll_and_sleep w ^^ i) s))))"

text \<open>The NML messages written to the command channel, in order.\<close>

fun cmd_writes :: "event list \<Rightarrow> NML_msg list" where
  "cmd_writes [] = []"
| "cmd_writes (Cmd_write m # es) = m # cmd_writes es"
| "cmd_writes (e # es) = cmd_writes es"

text \<open>What a wait leaves as it was: everything but the status buffer contents, the poll
  counter and the sleeps in the trace.\<close>

definition wait_frame :: "halui \<Rightarrow> halui \<Rightarrow> bool" where
  "wait_frame s s' \<longleftrightarrow>
     emcCommandBuffer s' = emcCommandBuffer s \<and> emcStatusBuffer s' = emcStatusBuffer s \<and>
     emcErrorBuffer s' = emcErrorBuffer s \<and>
     emcCommandSerialNumber s' = emcCommandSerialNumber s \<and>
     saveEmcCommandSerialNumber s' = saveEmcCommandSerialNumber s \<and>
     emcTimeout s' = emcTimeout s \<and> emcWaitType s' = emcWaitType s \<and>
     halui_data s' = halui_data s \<and> old_halui_data s' = old_halui_data s \<and>
     (emcStatus s' = None) = (emcStatus s = None) \<and>
     cmd_writes (trace s') = cmd_writes (trace s)"

text \<open>One failed attempt of a do-while loop of \<open>tryNml\<close>: the call, then the sleep.\<close>

definition retry_step ::
  "(world \<Rightarrow> halui \<Rightarrow> int \<times> halui) \<Rightarrow> world \<Rightarrow> halui \<Rightarrow> halui" where
  "retry_step get w s = esleep RETRY_INTERVAL (snd (get w s))"

text \<open>The guarded calls of \<open>set_rcs_print_destination\<close> in \<open>tryNml\<close>.\<close>

definition diag_set :: "world \<Rightarrow> RCS_PRINT_DESTINATION_TYPE \<Rightarrow> halui \<Rightarrow> halui" where
  "diag_set w d s = (if nml_debug_off w s then set_rcs_print_destination d s else s)"

text \<open>The durations slept and the diagnostic destinations set, in order.\<close>

fun sleeps :: "event list \<Rightarrow> real list" where
  "sleeps [] = []"
| "sleeps (Esleep d # es) = d # sleeps es"
| "sleeps (e # es) = sleeps es"

fun print_destinations :: "event list \<Rightarrow> RCS_PRINT_DESTINATION_TYPE list" where
  "print_destinations [] = []"
| "print_destinations (Set_rcs_print_destination d # es) = d # print_destinations es"
| "print_destinations (e # es) = print_destinations es"

text \<open>The commands dispatched (state requested and serial number), in order; the
  \<open>EMC_NULL\<close> message written at shutdown is not a dispatch.\<close>

fun dispatched :: "NML_msg list \<Rightarrow> (EMC_TASK_STATE \<times> c_int) list" where
  "dispatched [] = []"
| "dispatched (EMC_TASK_SET_STATE st sn # ms) = (st, sn) # dispatched ms"
| "dispatched (EMC_NULL sn # ms) = dispatched ms"

definition dispatches :: "halui \<Rightarrow> (EMC_TASK_STATE \<times> c_int) list" where
  "dispatches s = dispatched (cmd_writes (trace s))"

definition dispatch_count :: "EMC_TASK_STATE \<Rightarrow> halui \<Rightarrow> nat" where
  "dispatch_count st s = length (filter (\<lambda>p. fst p = st) (dispatches s))"

text \<open>
  The specification's edge rule, in its words: a pin triggers when its value differs from
  the shadow and the new value is truthy; the shadow then takes the new value whatever
  happened. \<open>rising_edges prev vs\<close> counts the triggers over the samples \<open>vs\<close> of one
  pin, the shadow starting at \<open>prev\<close>.
\<close>

definition edge :: "hal_bit_t \<Rightarrow> hal_bit_t \<Rightarrow> bool" where
  "edge prev v \<longleftrightarrow> v \<noteq> prev \<and> v \<noteq> 0"

fun rising_edges :: "hal_bit_t \<Rightarrow> hal_bit_t list \<Rightarrow> nat" where
  "rising_edges prev [] = 0"
| "rising_edges prev (v # vs) = (if edge prev v then 1 else 0) + rising_edges v vs"

text \<open>The serial numbers \<open>c + 1, \<dots>, c + n\<close>, as \<open>++emcCommandSerialNumber\<close> yields them.\<close>

fun serials_from :: "c_int \<Rightarrow> nat \<Rightarrow> c_int list" where
  "serials_from c 0 = []"
| "serials_from c (Suc n) = (c + 1) # serials_from (c + 1) n"

text \<open>The number of triggers of both pins over the samples \<open>ps\<close>, from the shadows
  of \<open>s\<close>.\<close>

definition triggers :: "halui \<Rightarrow> (hal_bit_t \<times> hal_bit_t) list \<Rightarrow> nat" where
  "triggers s ps =
     rising_edges (old_machine_on (old_halui_data s)) (map fst ps)
     + rising_edges (old_machine_off (old_halui_data s)) (map snd ps)"

text \<open>
  How a call comes back. \<open>comes_back must P m\<close>: the call \<open>m\<close> returns a value, in a
  state with \<open>P\<close>, or it does not return at all, which \<open>must\<close> excludes. The main loop
  keeps \<open>loop_inv\<close>: the command channel and the status pointer are there, and with
  \<open>must\<close> every wait is bounded, the wait type being \<open>EMC_WAIT_NONE\<close> or the timeout
  positive and reached by the counter of the wait loops after \<open>n\<close> passes.
\<close>

definition comes_back ::
  "bool \<Rightarrow> (halui \<Rightarrow> bool) \<Rightarrow> ('a outcome \<times> halui) option \<Rightarrow> bool" where
  "comes_back must P m =
     (case m of None \<Rightarrow> \<not> must
      | Some (oc, s') \<Rightarrow> (case oc of Return x \<Rightarrow> P s' | Exit c \<Rightarrow> False | Null_deref \<Rightarrow> False))"

definition loop_inv :: "bool \<Rightarrow> nat \<Rightarrow> halui \<Rightarrow> bool" where
  "loop_inv must n s \<longleftrightarrow>
     emcCommandBuffer s \<and> emcStatus s \<noteq> None \<and>
     (must \<longrightarrow> emcWaitType s = EMC_WAIT_NONE \<or>
                0 < emcTimeout s \<and> \<not> dval (wait_counter double_zero n) < emcTimeout s)"
section \<open>Concrete scenarios\<close>

text \<open>The globals as their static initialisers leave them.\<close>

definition halui_static :: halui where
  "halui_static =
    \<lparr>emcCommandBuffer = False, emcStatusBuffer = False, emcStatus = None,
     emcErrorBuffer = False, emcCommandSerialNumber = 0, saveEmcCommandSerialNumber = 0,
     emcTimeout = 0, emcWaitType = EMC_WAIT_DONE, linearUnitConversion = LINEAR_UNITS_AUTO,
     EMC_DEBUG = 0,
     halui_data = \<lparr>machine_on = 0, machine_off = 0, machine_is_on = 0\<rparr>,
     old_halui_data = \<lparr>old_machine_on = 0, old_machine_off = 0, old_machine_is_on = 0\<rparr>,
     n_cmd_new = 0, n_stat_new = 0, n_err_new = 0, n_polls = 0, trace = []\<rparr>"

definition stat_of :: "c_int \<Rightarrow> RCS_STATUS \<Rightarrow> EMC_STAT" where
  "stat_of e st =
    \<lparr>echo_serial_number = e, status = st, task_state = EMC_TASK_STATE_ON,
     task_programUnits = CANON_UNITS_INCHES, motion_traj_linearUnits = 1\<rparr>"

text \<open>A controller that is up: every channel connects, every poll is valid and brings
  the status message \<open>mem n\<close>.\<close>

definition world_up :: "(nat \<Rightarrow> EMC_STAT) \<Rightarrow> world" where
  "world_up mem =
    \<lparr>cmd_channel_valid = (\<lambda>n. True), stat_channel_valid = (\<lambda>n. True),
     stat_channel_peek = (\<lambda>n. EMC_STAT_TYPE), stat_channel_mem = (\<lambda>n. mem 0),
     err_channel_valid = (\<lambda>n. True), poll_valid = (\<lambda>n. True),
     poll_peek = (\<lambda>n. EMC_STAT_TYPE), poll_mem = mem,
     EMC_DEBUG_NML = 64, EMC_IO_CYCLE_TIME = 1 / 10\<rparr>"

text \<open>The state once the three channels are there.\<close>

definition halui_connected :: "EMC_STAT \<Rightarrow> halui" where
  "halui_connected m =
     halui_static\<lparr>emcCommandBuffer := True, emcStatusBuffer := True,
                  emcStatus := Some m, emcErrorBuffer := True\<rparr>"

definition world_no_data_twice :: world where
  "world_no_data_twice =
     (world_up (\<lambda>n. stat_of 5 RCS_EXEC))
       \<lparr>poll_peek := (\<lambda>n. if n < 2 then NML_no_data else EMC_STAT_TYPE)\<rparr>"

text \<open>A controller that echoes serial number 7 from the eleventh poll on.\<close>

definition world_echo_at_poll_10 :: world where
  "world_echo_at_poll_10 = world_up (\<lambda>n. stat_of (if n < 10 then 0 else 7) RCS_EXEC)"

definition world_polls_fail :: world where
  "world_polls_fail = (world_up (\<lambda>n. stat_of 1 RCS_DONE))\<lparr>poll_valid := (\<lambda>n. False)\<rparr>"

definition world_error_after_echo :: world where
  "world_error_after_echo = world_up (\<lambda>n. stat_of 1 (if n = 0 then RCS_EXEC else RCS_ERROR))"

definition world_exec_forever :: world where
  "world_exec_forever = world_up (\<lambda>n. stat_of 1 RCS_EXEC)"

text \<open>No controller: no channel can be constructed. \<open>EMC_DEBUG_NML\<close> has the value
  0x40 of emcglb.h.\<close>

definition world_down :: world where
  "world_down =
    \<lparr>cmd_channel_valid = (\<lambda>n. False), stat_channel_valid = (\<lambda>n. False),
     stat_channel_peek = (\<lambda>n. NML_error), stat_channel_mem = (\<lambda>n. stat_of 0 UNINITIALIZED_STATUS),
     err_channel_valid = (\<lambda>n. False), poll_valid = (\<lambda>n. False),
     poll_peek = (\<lambda>n. NML_error), poll_mem = (\<lambda>n. stat_of 0 UNINITIALIZED_STATUS),
     EMC_DEBUG_NML = 64, EMC_IO_CYCLE_TIME = 1 / 10\<rparr>"

text \<open>A controller whose last echoed serial number is \<open>2 ^ 31 - 2\<close> when the
  component starts, and which then echoes and completes each command it is sent.\<close>

definition world_wrap :: world where
  "world_wrap =
     world_up (\<lambda>n. stat_of (if n = 0 then 2147483646 else if n < 4 then 2147483647
                              else 2147483648) RCS_DONE)"

definition world_error_then_done :: world where
  "world_error_then_done =
     world_up (\<lambda>n. if n < 5 then stat_of 1 RCS_ERROR else stat_of 2 RCS_DONE)"

text \<open>
  A controller that answers three commands: serial number 1 with ERROR, then 2 and 3
  with DONE.
\<close>

definition world_three_commands :: world where
  "world_three_commands =
     world_up (\<lambda>n. if n < 4 then stat_of 1 RCS_ERROR
                    else if n < 7 then stat_of 2 RCS_DONE else stat_of 3 RCS_DONE)"

section \<open>Polling and the wait for receipt\<close>

lemma updateStatus_frame:
  "emcTimeout (snd (updateStatus w s)) = emcTimeout s"
  "trace (snd (updateStatus w s)) = trace s"
  "emcStatusBuffer (snd (updateStatus w s)) = emcStatusBuffer s"
  "emcCommandBuffer (snd (updateStatus w s)) = emcCommandBuffer s"
  "emcErrorBuffer (snd (updateStatus w s)) = emcErrorBuffer s"
  "emcCommandSerialNumber (snd (updateStatus w s)) = emcCommandSerialNumber s"
  "saveEmcCommandSerialNumber (snd (updateStatus w s)) = saveEmcCommandSerialNumber s"
  "emcWaitType (snd (updateStatus w s)) = emcWaitType s"
  "halui_data (snd (updateStatus w s)) = halui_data s"
  "old_halui_data (snd (updateStatus w s)) = old_halui_data s"
  "n_polls (snd (updateStatus w s)) = Suc (n_polls s)"
  "(emcStatus (snd (updateStatus w s)) = None) = (emcStatus s = None)"
  by (simp_all add: updateStatus_def Let_def split: NMLTYPE.splits)

lemma esleep_frame:
  "emcTimeout (esleep d s) = emcTimeout s"
  "trace (esleep d s) = trace s @ [Esleep d]"
  "emcStatusBuffer (esleep d s) = emcStatusBuffer s"
  "emcCommandBuffer (esleep d s) = emcCommandBuffer s"
  "emcErrorBuffer (esleep d s) = emcErrorBuffer s"
  "emcStatus (esleep d s) = emcStatus s"
  "emcCommandSerialNumber (esleep d s) = emcCommandSerialNumber s"
  "saveEmcCommandSerialNumber (esleep d s) = saveEmcCommandSerialNumber s"
  "emcWaitType (esleep d s) = emcWaitType s"
  "halui_data (esleep d s) = halui_data s"
  "old_halui_data (esleep d s) = old_halui_data s"
  "n_polls (esleep d s) = n_polls s"
  by (simp_all add: esleep_def emit_def)

lemma poll_and_sleep_frame:
  "emcTimeout (poll_and_sleep w s) = emcTimeout s"
  "(emcStatus (poll_and_sleep w s) = None) = (emcStatus s = None)"
  "n_polls (poll_and_sleep w s) = Suc (n_polls s)"
  by (simp_all add: poll_and_sleep_def updateStatus_frame esleep_frame)

lemma echo_at_Suc: "echo_at w s (Suc i) = echo_at w (poll_and_sleep w s) i"
  by (simp add: echo_at_def funpow_swap1)

lemma wait_received_step:
  assumes "emcTimeout s \<le> 0 \<or> dval endv < emcTimeout s"
    and "emcStatus s \<noteq> None" and "echo_at w s 0 \<noteq> Some sn"
  shows "emcCommandWaitReceived_while w sn endv s =
         emcCommandWaitReceived_while w sn (double_add endv EMC_COMMAND_DELAY)
           (poll_and_sleep w s)"
proof -
  obtain r s1 where u: "updateStatus w s = (r, s1)" by (cases "updateStatus w s")
  have "emcStatus s1 \<noteq> None"
    using updateStatus_frame(12) [of w s] assms(2) u by simp
  then obtain st where st: "emcStatus s1 = Some st" by auto
  have "echo_serial_number st \<noteq> sn"
    using assms(3) u st by (simp add: echo_at_def)
  then show ?thesis
    using assms(1) u st
    by (subst emcCommandWaitReceived_while.simps) (simp add: poll_and_sleep_def)
qed

lemma wait_received_hit:
  assumes "emcTimeout s \<le> 0 \<or> dval endv < emcTimeout s"
    and "emcStatus s \<noteq> None" and "echo_at w s 0 = Some sn"
  shows "emcCommandWaitReceived_while w sn endv s = Some (Return 0, snd (updateStatus w s))"
proof -
  obtain r s1 where u: "updateStatus w s = (r, s1)" by (cases "updateStatus w s")
  obtain st where st: "emcStatus s1 = Some st" "echo_serial_number st = sn"
    using assms(3) u by (auto simp: echo_at_def)
  show ?thesis
    using assms(1) u st
    by (subst emcCommandWaitReceived_while.simps) simp
qed

lemma wait_received_success:
  assumes "emcStatus s \<noteq> None"
    and "\<forall>i<j. echo_at w s i \<noteq> Some sn" and "echo_at w s j = Some sn"
    and "emcTimeout s \<le> 0 \<or> (\<forall>i\<le>j. dval (wait_counter endv i) < emcTimeout s)"
  shows "emcCommandWaitReceived_while w sn endv s =
         Some (Return 0, snd (updateStatus w ((poll_and_sleep w ^^ j) s)))"
  using assms
proof (induction j arbitrary: s endv)
  case 0
  then show ?case by (simp add: wait_received_hit)
next
  case (Suc j)
  have c: "emcTimeout s \<le> 0 \<or> dval endv < emcTimeout s"
    using Suc.prems(4) by (auto dest: spec [of _ 0])
  have e0: "echo_at w s 0 \<noteq> Some sn" using Suc.prems(2) by simp
  have step: "emcCommandWaitReceived_while w sn endv s =
      emcCommandWaitReceived_while w sn (double_add endv EMC_COMMAND_DELAY)
        (poll_and_sleep w s)"
    by (rule wait_received_step [OF c Suc.prems(1) e0])
  have "emcCommandWaitReceived_while w sn (double_add endv EMC_COMMAND_DELAY)
          (poll_and_sleep w s) =
      Some (Return 0, snd (updateStatus w ((poll_and_sleep w ^^ j) (poll_and_sleep w s))))"
  proof (rule Suc.IH)
    show "emcStatus (poll_and_sleep w s) \<noteq> None"
      using Suc.prems(1) by (simp add: poll_and_sleep_frame)
    show "\<forall>i<j. echo_at w (poll_and_sleep w s) i \<noteq> Some sn"
      using Suc.prems(2) by (simp add: echo_at_Suc [symmetric])
    show "echo_at w (poll_and_sleep w s) j = Some sn"
      using Suc.prems(3) by (simp add: echo_at_Suc)
    show "emcTimeout (poll_and_sleep w s) \<le> 0 \<or>
          (\<forall>i\<le>j. dval (wait_counter (double_add endv EMC_COMMAND_DELAY) i)
                   < emcTimeout (poll_and_sleep w s))"
    proof (cases "emcTimeout s \<le> 0")
      case True
      then show ?thesis by (simp add: poll_and_sleep_frame)
    next
      case False
      then have a: "\<forall>i\<le>Suc j. dval (wait_counter endv i) < emcTimeout s"
        using Suc.prems(4) by blast
      have "\<forall>i\<le>j. dval (wait_counter (double_add endv EMC_COMMAND_DELAY) i) < emcTimeout s"
      proof (intro allI impI)
        fix i assume "i \<le> j"
        then have "dval (wait_counter endv (Suc i)) < emcTimeout s"
          using a [rule_format, of "Suc i"] by simp
        then show "dval (wait_counter (double_add endv EMC_COMMAND_DELAY) i) < emcTimeout s"
          by simp
      qed
      then show ?thesis by (simp add: poll_and_sleep_frame)
    qed
  qed
  then show ?case using step by (simp add: funpow_swap1)
qed

lemma wait_received_timeout:
  assumes "emcStatus s \<noteq> None" and "0 < emcTimeout s"
    and "\<forall>i<j. echo_at w s i \<noteq> Some sn"
    and "\<forall>i<j. dval (wait_counter endv i) < emcTimeout s"
    and "\<not> dval (wait_counter endv j) < emcTimeout s"
  shows "emcCommandWaitReceived_while w sn endv s =
         Some (Return (-1), (poll_and_sleep w ^^ j) s)"
  using assms
proof (induction j arbitrary: s endv)
  case 0
  then show ?case by (subst emcCommandWaitReceived_while.simps) simp
next
  case (Suc j)
  have c: "emcTimeout s \<le> 0 \<or> dval endv < emcTimeout s"
    using Suc.prems(4) by (auto dest: spec [of _ 0])
  have e0: "echo_at w s 0 \<noteq> Some sn" using Suc.prems(3) by simp
  have step: "emcCommandWaitReceived_while w sn endv s =
      emcCommandWaitReceived_while w sn (double_add endv EMC_COMMAND_DELAY)
        (poll_and_sleep w s)"
    by (rule wait_received_step [OF c Suc.prems(1) e0])
  have "emcCommandWaitReceived_while w sn (double_add endv EMC_COMMAND_DELAY)
          (poll_and_sleep w s) =
      Some (Return (-1), (poll_and_sleep w ^^ j) (poll_and_sleep w s))"
  proof (rule Suc.IH)
    show "emcStatus (poll_and_sleep w s) \<noteq> None"
      using Suc.prems(1) by (simp add: poll_and_sleep_frame)
    show "0 < emcTimeout (poll_and_sleep w s)"
      using Suc.prems(2) by (simp add: poll_and_sleep_frame)
    show "\<forall>i<j. echo_at w (poll_and_sleep w s) i \<noteq> Some sn"
      using Suc.prems(3) by (simp add: echo_at_Suc [symmetric])
    show "\<forall>i<j. dval (wait_counter (double_add endv EMC_COMMAND_DELAY) i)
             < emcTimeout (poll_and_sleep w s)"
    proof (intro allI impI)
      fix i assume "i < j"
      then have "dval (wait_counter endv (Suc i)) < emcTimeout s"
        using Suc.prems(4) [rule_format, of "Suc i"] by simp
      then show "dval (wait_counter (double_add endv EMC_COMMAND_DELAY) i)
             < emcTimeout (poll_and_sleep w s)"
        by (simp add: poll_and_sleep_frame)
    qed
    show "\<not> dval (wait_counter (double_add endv EMC_COMMAND_DELAY) j)
             < emcTimeout (poll_and_sleep w s)"
      using Suc.prems(5) by (simp add: poll_and_sleep_frame)
  qed
  then show ?case using step by (simp add: funpow_swap1)
qed

text \<open>A wait with a positive timeout that the counter reaches returns.\<close>

lemma wait_received_returns:
  assumes "0 < emcTimeout s" and "\<not> dval (wait_counter endv n) < emcTimeout s"
  shows "\<exists>y. emcCommandWaitReceived_while w sn endv s = Some y"
  using assms
proof (induction n arbitrary: s endv)
  case 0
  then show ?case by (subst emcCommandWaitReceived_while.simps) simp
next
  case (Suc n)
  obtain r s1 where u: "updateStatus w s = (r, s1)" by (cases "updateStatus w s")
  have t1: "emcTimeout (esleep (dval EMC_COMMAND_DELAY) s1) = emcTimeout s"
    using updateStatus_frame(1) [of w s] u by (simp add: esleep_frame)
  have "\<exists>y. emcCommandWaitReceived_while w sn (double_add endv EMC_COMMAND_DELAY)
              (esleep (dval EMC_COMMAND_DELAY) s1) = Some y"
    by (rule Suc.IH) (use Suc.prems t1 in simp_all)
  then show ?case
    using u
    by (subst emcCommandWaitReceived_while.simps) (auto split: option.splits)
qed

lemma echo_at_funpow: "echo_at w ((poll_and_sleep w ^^ k) s) i = echo_at w s (k + i)"
  by (simp add: echo_at_def funpow_add add.commute)

lemma wait_received_never:
  assumes run: "emcCommandWaitReceived_while w sn endv s = Some y"
  shows "\<not> (emcTimeout s \<le> 0 \<and> emcStatus s \<noteq> None \<and> (\<forall>i. echo_at w s i \<noteq> Some sn))"
proof (rule emcCommandWaitReceived_while.raw_induct
    [where P = "\<lambda>w sn endv s y.
       \<not> (emcTimeout s \<le> 0 \<and> emcStatus s \<noteq> None \<and> (\<forall>i. echo_at w s i \<noteq> Some sn))",
     OF _ run], goal_cases)
  case (1 loop w sn endv s y)
  note IH = 1(1) and eq = 1(2)
  show ?case
  proof
    assume h: "emcTimeout s \<le> 0 \<and> emcStatus s \<noteq> None \<and> (\<forall>i. echo_at w s i \<noteq> Some sn)"
    obtain r s1 where u: "updateStatus w s = (r, s1)" by (cases "updateStatus w s")
    have "emcStatus s1 \<noteq> None"
      using updateStatus_frame(12) [of w s] h u by simp
    then obtain st where st: "emcStatus s1 = Some st" by auto
    have ne: "echo_serial_number st \<noteq> sn"
      using h u st by (auto simp: echo_at_def dest: spec [of _ 0])
    have rec: "loop w sn (double_add endv EMC_COMMAND_DELAY) (poll_and_sleep w s) = Some y"
      using eq h u st ne by (simp add: poll_and_sleep_def)
    have "emcTimeout (poll_and_sleep w s) \<le> 0 \<and> emcStatus (poll_and_sleep w s) \<noteq> None \<and>
          (\<forall>i. echo_at w (poll_and_sleep w s) i \<noteq> Some sn)"
      using h by (simp add: poll_and_sleep_frame echo_at_Suc [symmetric])
    then show False using IH [OF rec] by blast
  qed
qed

lemma wait_received_diverges:
  assumes "emcTimeout s \<le> 0" and "emcStatus s \<noteq> None"
    and "\<forall>i. echo_at w s i \<noteq> Some sn"
  shows "emcCommandWaitReceived_while w sn endv s = None"
proof (cases "emcCommandWaitReceived_while w sn endv s")
  case None
  then show ?thesis .
next
  case (Some y)
  then show ?thesis using wait_received_never [OF Some] assms by blast
qed


lemma funpow_poll_frame:
  "n_polls ((poll_and_sleep w ^^ i) s) = n_polls s + i"
  "emcStatusBuffer ((poll_and_sleep w ^^ i) s) = emcStatusBuffer s"
  "emcTimeout ((poll_and_sleep w ^^ i) s) = emcTimeout s"
  "(emcStatus ((poll_and_sleep w ^^ i) s) = None) = (emcStatus s = None)"
  by (induction i)
     (simp_all add: poll_and_sleep_def updateStatus_frame esleep_frame)

lemma wait_received_result:
  assumes run: "emcCommandWaitReceived_while w sn endv s = Some y"
  shows "emcStatus s \<noteq> None \<longrightarrow>
     n_polls s \<le> n_polls (snd y) \<and>
     (fst y = Return 0 \<and> map_option echo_serial_number (emcStatus (snd y)) = Some sn
      \<or> fst y = Return (-1) \<and> 0 < emcTimeout s \<and>
         \<not> dval (wait_counter endv (n_polls (snd y) - n_polls s)) < emcTimeout s)"
proof (rule emcCommandWaitReceived_while.raw_induct
    [where P = "\<lambda>w sn endv s y. emcStatus s \<noteq> None \<longrightarrow>
     n_polls s \<le> n_polls (snd y) \<and>
     (fst y = Return 0 \<and> map_option echo_serial_number (emcStatus (snd y)) = Some sn
      \<or> fst y = Return (-1) \<and> 0 < emcTimeout s \<and>
         \<not> dval (wait_counter endv (n_polls (snd y) - n_polls s)) < emcTimeout s)",
     OF _ run], goal_cases)
  case (1 loop w sn endv s y)
  note IH = 1(1) and eq = 1(2)
  show ?case
  proof
    assume ns: "emcStatus s \<noteq> None"
    obtain r s1 where u: "updateStatus w s = (r, s1)" by (cases "updateStatus w s")
    have "emcStatus s1 \<noteq> None"
      using updateStatus_frame(12) [of w s] ns u by simp
    then obtain st where st: "emcStatus s1 = Some st" by auto
    have p1: "n_polls s1 = Suc (n_polls s)"
      using updateStatus_frame(11) [of w s] u by simp
    show "n_polls s \<le> n_polls (snd y) \<and>
     (fst y = Return 0 \<and> map_option echo_serial_number (emcStatus (snd y)) = Some sn
      \<or> fst y = Return (-1) \<and> 0 < emcTimeout s \<and>
         \<not> dval (wait_counter endv (n_polls (snd y) - n_polls s)) < emcTimeout s)"
    proof (cases "emcTimeout s \<le> 0 \<or> dval endv < emcTimeout s")
      case False
      then have "y = (Return (-1), s)" using eq by simp
      then show ?thesis using False by simp
    next
      case c: True
      show ?thesis
      proof (cases "echo_serial_number st = sn")
        case True
        then have "y = (Return 0, s1)" using eq c u st by simp
        then show ?thesis using st True p1 by simp
      next
        case False
        then have rec: "loop w sn (double_add endv EMC_COMMAND_DELAY) (poll_and_sleep w s)
                          = Some y"
          using eq c u st by (simp add: poll_and_sleep_def)
        have "emcStatus (poll_and_sleep w s) \<noteq> None"
          using ns by (simp add: poll_and_sleep_frame)
        with IH [OF rec]
        have "Suc (n_polls s) \<le> n_polls (snd y) \<and>
          (fst y = Return 0 \<and> map_option echo_serial_number (emcStatus (snd y)) = Some sn
            \<or> fst y = Return (-1) \<and> 0 < emcTimeout s \<and>
              \<not> dval (wait_counter (double_add endv EMC_COMMAND_DELAY)
                        (n_polls (snd y) - Suc (n_polls s))) < emcTimeout s)"
          unfolding poll_and_sleep_frame by blast
        then have le: "Suc (n_polls s) \<le> n_polls (snd y)"
          and d: "fst y = Return 0 \<and> map_option echo_serial_number (emcStatus (snd y)) = Some sn
            \<or> fst y = Return (-1) \<and> 0 < emcTimeout s \<and>
              \<not> dval (wait_counter (double_add endv EMC_COMMAND_DELAY)
                        (n_polls (snd y) - Suc (n_polls s))) < emcTimeout s"
          by blast+
        have "n_polls (snd y) - n_polls s = Suc (n_polls (snd y) - Suc (n_polls s))"
          using le by simp
        then have "wait_counter endv (n_polls (snd y) - n_polls s) =
            wait_counter (double_add endv EMC_COMMAND_DELAY) (n_polls (snd y) - Suc (n_polls s))"
          by simp
        then show ?thesis using le d by auto
      qed
    qed
  qed
qed

section \<open>Values of the counter\<close>

text \<open>A sum that fits into 53 bits is not rounded.\<close>

lemma dval_powr: "dval (Double m e) = of_int m * 2 powr (real_of_int e)"
proof (cases "0 \<le> e")
  case True
  then have "2 powr (real_of_int e) = (2::real) ^ nat e"
    by (simp add: powr_realpow [symmetric])
  then show ?thesis using True by (simp add: dval_def)
next
  case False
  then have "2 powr (real_of_int e) = 1 / (2::real) ^ nat (- e)"
    by (simp add: powr_realpow [symmetric] powr_minus_divide [symmetric])
  then show ?thesis using False by (simp add: dval_def)
qed

lemma dval_align:
  assumes "e \<le> ea"
  shows "of_int (ma * 2 ^ nat (ea - e)) * 2 powr (real_of_int e) = of_int ma * 2 powr (real_of_int ea)"
proof -
  have "(2::real) ^ nat (ea - e) = 2 powr (real_of_int (ea - e))"
    using assms by (simp add: powr_realpow [symmetric])
  then have "of_int (ma * 2 ^ nat (ea - e)) * 2 powr (real_of_int e)
      = of_int ma * (2 powr (real_of_int (ea - e)) * 2 powr (real_of_int e))"
    by simp
  also have "2 powr (real_of_int (ea - e)) * 2 powr (real_of_int e) = 2 powr (real_of_int ea)"
    by (simp add: powr_add [symmetric])
  finally show ?thesis .
qed

lemma double_add_exact:
  assumes "bit_length (nat \<bar>mantissa a * 2 ^ nat (exponent a - min (exponent a) (exponent b))
             + mantissa b * 2 ^ nat (exponent b - min (exponent a) (exponent b))\<bar>) \<le> 53"
  shows "dval (double_add a b) = dval a + dval b"
proof -
  obtain ma ea where a: "a = Double ma ea" by (cases a)
  obtain mb eb where b: "b = Double mb eb" by (cases b)
  define e where "e = min ea eb"
  have le: "e \<le> ea" "e \<le> eb" by (simp_all add: e_def)
  have "double_add a b = Double (ma * 2 ^ nat (ea - e) + mb * 2 ^ nat (eb - e)) e"
    using assms unfolding a b double_add_def round_to_double_def e_def
    by (simp add: Let_def)
  then have "dval (double_add a b) =
      of_int (ma * 2 ^ nat (ea - e)) * 2 powr (real_of_int e)
      + of_int (mb * 2 ^ nat (eb - e)) * 2 powr (real_of_int e)"
    by (simp only: dval_powr of_int_add distrib_right)
  also have "\<dots> = of_int ma * 2 powr (real_of_int ea) + of_int mb * 2 powr (real_of_int eb)"
    by (simp only: dval_align [OF le(1)] dval_align [OF le(2)])
  finally show ?thesis unfolding a b dval_powr .
qed

lemma double_add_Double:
  "double_add (Double ma ea) (Double mb eb) =
     round_to_double (ma * 2 ^ nat (ea - min ea eb) + mb * 2 ^ nat (eb - min ea eb)) (min ea eb)"
  by (simp add: double_add_def Let_def)

lemma round_to_double_exact:
  "bit_length (nat \<bar>m\<bar>) \<le> 53 \<Longrightarrow> round_to_double m e = Double m e"
  by (simp add: round_to_double_def)

lemma round_to_double_round:
  "bit_length (nat \<bar>m\<bar>) = 53 + k \<Longrightarrow> 0 < k \<Longrightarrow>
   round_to_double m e =
     Double (if m mod 2 ^ k < 2 ^ (k - 1) then m div 2 ^ k
             else if 2 ^ (k - 1) < m mod 2 ^ k then m div 2 ^ k + 1
             else if even (m div 2 ^ k) then m div 2 ^ k else m div 2 ^ k + 1)
            (e + int k)"
  by (simp add: round_to_double_def Let_def)

lemma wait_counter_Suc:
  "wait_counter e (Suc n) = double_add (wait_counter e n) EMC_COMMAND_DELAY"
  by (induction n arbitrary: e) simp_all

lemma wait_counter_numeral:
  "wait_counter e (numeral k) =
     double_add (wait_counter e (pred_numeral k)) EMC_COMMAND_DELAY"
  by (subst numeral_eq_Suc) (rule wait_counter_Suc)

text \<open>
  The first eleven sums \<open>0.1 + \<dots> + 0.1\<close> as the machine computes them. The third is
  0.30000000000000004, the tenth is 0.9999999999999999 and not 1.
\<close>

lemma double_add_zero_delay:
  "double_add double_zero EMC_COMMAND_DELAY = Double 3602879701896397 (- 55)"
  by (simp add: double_zero_def EMC_COMMAND_DELAY_def double_add_Double
        round_to_double_exact bit_length.simps)

lemma wait_counter_1: "wait_counter double_zero 1 = Double 3602879701896397 (- 55)"
  by (simp add: double_add_zero_delay)

lemma wait_counter_2: "wait_counter double_zero 2 = Double 7205759403792794 (- 55)"
  unfolding wait_counter_numeral [of _ "num.Bit0 num.One"]
  by (simp add: double_zero_def EMC_COMMAND_DELAY_def double_add_Double
        round_to_double_exact bit_length.simps)

lemma wait_counter_3: "wait_counter double_zero 3 = Double 5404319552844596 (- 54)"
  unfolding wait_counter_numeral [of _ "num.Bit1 num.One"]
  by (simp add: wait_counter_2 EMC_COMMAND_DELAY_def double_add_Double
        round_to_double_round [where k = 1] bit_length.simps)

lemma wait_counter_4: "wait_counter double_zero 4 = Double 7205759403792794 (- 54)"
  unfolding wait_counter_numeral [of _ "num.Bit0 (num.Bit0 num.One)"]
  by (simp add: wait_counter_3 EMC_COMMAND_DELAY_def double_add_Double
        round_to_double_round [where k = 1] bit_length.simps)

lemma wait_counter_5: "wait_counter double_zero 5 = Double 4503599627370496 (- 53)"
  unfolding wait_counter_numeral [of _ "num.Bit1 (num.Bit0 num.One)"]
  by (simp add: wait_counter_4 EMC_COMMAND_DELAY_def double_add_Double
        round_to_double_round [where k = 2] bit_length.simps)

lemma wait_counter_6: "wait_counter double_zero 6 = Double 5404319552844595 (- 53)"
  unfolding wait_counter_numeral [of _ "num.Bit0 (num.Bit1 num.One)"]
  by (simp add: wait_counter_5 EMC_COMMAND_DELAY_def double_add_Double
        round_to_double_round [where k = 2] bit_length.simps)

lemma wait_counter_7: "wait_counter double_zero 7 = Double 6305039478318694 (- 53)"
  unfolding wait_counter_numeral [of _ "num.Bit1 (num.Bit1 num.One)"]
  by (simp add: wait_counter_6 EMC_COMMAND_DELAY_def double_add_Double
        round_to_double_round [where k = 2] bit_length.simps)

lemma wait_counter_8: "wait_counter double_zero 8 = Double 7205759403792793 (- 53)"
  unfolding wait_counter_numeral [of _ "num.Bit0 (num.Bit0 (num.Bit0 num.One))"]
  by (simp add: wait_counter_7 EMC_COMMAND_DELAY_def double_add_Double
        round_to_double_round [where k = 2] bit_length.simps)

lemma wait_counter_9: "wait_counter double_zero 9 = Double 8106479329266892 (- 53)"
  unfolding wait_counter_numeral [of _ "num.Bit1 (num.Bit0 (num.Bit0 num.One))"]
  by (simp add: wait_counter_8 EMC_COMMAND_DELAY_def double_add_Double
        round_to_double_round [where k = 2] bit_length.simps)

lemma wait_counter_10: "wait_counter double_zero 10 = Double 9007199254740991 (- 53)"
  unfolding wait_counter_numeral [of _ "num.Bit0 (num.Bit1 (num.Bit0 num.One))"]
  by (simp add: wait_counter_9 EMC_COMMAND_DELAY_def double_add_Double
        round_to_double_round [where k = 2] bit_length.simps)

lemma wait_counter_11: "wait_counter double_zero 11 = Double 4953959590107545 (- 52)"
  unfolding wait_counter_numeral [of _ "num.Bit1 (num.Bit1 (num.Bit0 num.One))"]
  by (simp add: wait_counter_10 EMC_COMMAND_DELAY_def double_add_Double
        round_to_double_round [where k = 3] bit_length.simps)

lemma wait_counter_below_1:
  assumes "i < 11"
  shows "dval (wait_counter double_zero i) < 1"
proof -
  have "i = 0 \<or> i = 1 \<or> i = 2 \<or> i = 3 \<or> i = 4 \<or> i = 5 \<or> i = 6 \<or> i = 7 \<or> i = 8
      \<or> i = 9 \<or> i = 10"
    using assms by presburger
  moreover have "dval double_zero < 1" by (simp add: double_zero_def dval_def)
  ultimately show ?thesis
    by (elim disjE)
       (simp_all add: double_add_zero_delay wait_counter_2 wait_counter_3 wait_counter_4
          wait_counter_5 wait_counter_6 wait_counter_7 wait_counter_8 wait_counter_9
          wait_counter_10 dval_def)
qed

lemma wait_counter_reaches_1: "\<not> dval (wait_counter double_zero 11) < 1"
  by (simp add: wait_counter_11 dval_def)

lemma no_data_polls:
  assumes "\<forall>i<j. poll_valid w (n_polls s + i) \<and> poll_peek w (n_polls s + i) = NML_no_data"
    and "emcStatusBuffer s" and "emcStatus s \<noteq> None"
  shows "i \<le> j \<Longrightarrow> emcStatus ((poll_and_sleep w ^^ i) s) = emcStatus s"
proof (induction i)
  case 0
  then show ?case by simp
next
  case (Suc i)
  let ?t = "(poll_and_sleep w ^^ i) s"
  have e: "emcStatus ?t = emcStatus s" using Suc by simp
  have "poll_valid w (n_polls ?t) \<and> poll_peek w (n_polls ?t) = NML_no_data"
    using assms(1) Suc.prems by (simp add: funpow_poll_frame)
  then have "emcStatus (poll_and_sleep w ?t) = emcStatus ?t"
    using assms(2,3) e
    by (simp add: poll_and_sleep_def esleep_frame updateStatus_def Let_def funpow_poll_frame)
  then show ?case using e by simp
qed

lemma no_data_poll_ok:
  assumes "\<forall>i<j. poll_valid w (n_polls s + i) \<and> poll_peek w (n_polls s + i) = NML_no_data"
    and "emcStatusBuffer s" and "emcStatus s \<noteq> None" and "i < j"
  shows "fst (updateStatus w ((poll_and_sleep w ^^ i) s)) = 0"
    and "emcStatus (snd (updateStatus w ((poll_and_sleep w ^^ i) s))) = emcStatus s"
proof -
  let ?t = "(poll_and_sleep w ^^ i) s"
  have e: "emcStatus ?t = emcStatus s"
    using no_data_polls [OF assms(1,2,3), of i] assms(4) by simp
  have v: "poll_valid w (n_polls ?t) \<and> poll_peek w (n_polls ?t) = NML_no_data"
    using assms(1,4) by (simp add: funpow_poll_frame)
  show "fst (updateStatus w ?t) = 0"
    using v e assms(2,3) by (simp add: updateStatus_def Let_def funpow_poll_frame)
  show "emcStatus (snd (updateStatus w ?t)) = emcStatus s"
    using v e assms(2,3) by (simp add: updateStatus_def Let_def funpow_poll_frame)
qed

lemma new_status_poll:
  assumes "\<forall>i<j. poll_valid w (n_polls s + i) \<and> poll_peek w (n_polls s + i) = NML_no_data"
    and "emcStatusBuffer s" and "emcStatus s \<noteq> None"
    and "poll_valid w (n_polls s + j)" and "poll_peek w (n_polls s + j) = EMC_STAT_TYPE"
  shows "emcStatus (snd (updateStatus w ((poll_and_sleep w ^^ j) s)))
           = Some (poll_mem w (n_polls s + j))"
proof -
  let ?t = "(poll_and_sleep w ^^ j) s"
  have e: "emcStatus ?t = emcStatus s"
    using no_data_polls [OF assms(1,2,3), of j] by simp
  show ?thesis
    using e assms(2,3,4,5) by (simp add: updateStatus_def Let_def funpow_poll_frame)
qed

lemma poll_new_status:
  assumes "emcStatusBuffer s" and "emcStatus s \<noteq> None"
    and "poll_valid w (n_polls s + i)" and "poll_peek w (n_polls s + i) = EMC_STAT_TYPE"
  shows "emcStatus (snd (updateStatus w ((poll_and_sleep w ^^ i) s)))
           = Some (poll_mem w (n_polls s + i))"
  using assms by (auto simp add: updateStatus_def Let_def funpow_poll_frame)

text \<open>
  C2. A wait started with a non-null status pointer. The timeout has elapsed after \<open>n\<close>
  passes when the counter of the loop, the machine's sum of \<open>n\<close> delays, is no longer
  below it. (1) If poll number \<open>j\<close> is the first to observe the awaited serial number,
  and the timeout is off or has not elapsed after any of the first \<open>j\<close> passes, the wait
  returns 0 straight after that poll. (2) In particular \<open>j\<close> polls that find no new data
  return 0 themselves and do not end the wait: when the next poll brings a status message
  echoing the serial number, the wait returns 0. (3) With a positive timeout that elapses
  after \<open>n\<close> passes and not before, and no poll among the \<open>n\<close> made observing the
  serial number, the wait returns -1.
\<close>

theorem emcCommandWaitReceived_echo_or_timeout:
  assumes "emcStatus s \<noteq> None"
  shows "((\<forall>i<j. echo_at w s i \<noteq> Some sn) \<and> echo_at w s j = Some sn \<and>
          (emcTimeout s \<le> 0 \<or> (\<forall>i\<le>j. dval (wait_counter double_zero i) < emcTimeout s)) \<longrightarrow>
          emcCommandWaitReceived w sn s =
            Some (Return 0, snd (updateStatus w ((poll_and_sleep w ^^ j) s))))
       \<and> (emcStatusBuffer s \<and> map_option echo_serial_number (emcStatus s) \<noteq> Some sn \<and>
          (\<forall>i<j. poll_valid w (n_polls s + i) \<and> poll_peek w (n_polls s + i) = NML_no_data) \<and>
          poll_valid w (n_polls s + j) \<and> poll_peek w (n_polls s + j) = EMC_STAT_TYPE \<and>
          echo_serial_number (poll_mem w (n_polls s + j)) = sn \<and>
          (emcTimeout s \<le> 0 \<or> (\<forall>i\<le>j. dval (wait_counter double_zero i) < emcTimeout s)) \<longrightarrow>
          (\<forall>i<j. fst (updateStatus w ((poll_and_sleep w ^^ i) s)) = 0) \<and>
          emcCommandWaitReceived w sn s =
            Some (Return 0, snd (updateStatus w ((poll_and_sleep w ^^ j) s))))
       \<and> (0 < emcTimeout s \<and>
          (\<forall>i<n. dval (wait_counter double_zero i) < emcTimeout s) \<and>
          \<not> dval (wait_counter double_zero n) < emcTimeout s \<and>
          (\<forall>i<n. echo_at w s i \<noteq> Some sn) \<longrightarrow>
          emcCommandWaitReceived w sn s = Some (Return (-1), (poll_and_sleep w ^^ n) s))"
proof (intro conjI impI)
  assume h: "(\<forall>i<j. echo_at w s i \<noteq> Some sn) \<and> echo_at w s j = Some sn \<and>
          (emcTimeout s \<le> 0 \<or> (\<forall>i\<le>j. dval (wait_counter double_zero i) < emcTimeout s))"
  then show "emcCommandWaitReceived w sn s =
            Some (Return 0, snd (updateStatus w ((poll_and_sleep w ^^ j) s)))"
    unfolding emcCommandWaitReceived_def
    using wait_received_success [OF assms, of j w sn double_zero] by blast
next
  assume h: "emcStatusBuffer s \<and> map_option echo_serial_number (emcStatus s) \<noteq> Some sn \<and>
          (\<forall>i<j. poll_valid w (n_polls s + i) \<and> poll_peek w (n_polls s + i) = NML_no_data) \<and>
          poll_valid w (n_polls s + j) \<and> poll_peek w (n_polls s + j) = EMC_STAT_TYPE \<and>
          echo_serial_number (poll_mem w (n_polls s + j)) = sn \<and>
          (emcTimeout s \<le> 0 \<or> (\<forall>i\<le>j. dval (wait_counter double_zero i) < emcTimeout s))"
  then have nd: "\<forall>i<j. poll_valid w (n_polls s + i) \<and> poll_peek w (n_polls s + i) = NML_no_data"
    and b: "emcStatusBuffer s" by blast+
  show "\<forall>i<j. fst (updateStatus w ((poll_and_sleep w ^^ i) s)) = 0"
    using no_data_poll_ok(1) [OF nd b assms] by blast
next
  assume h: "emcStatusBuffer s \<and> map_option echo_serial_number (emcStatus s) \<noteq> Some sn \<and>
          (\<forall>i<j. poll_valid w (n_polls s + i) \<and> poll_peek w (n_polls s + i) = NML_no_data) \<and>
          poll_valid w (n_polls s + j) \<and> poll_peek w (n_polls s + j) = EMC_STAT_TYPE \<and>
          echo_serial_number (poll_mem w (n_polls s + j)) = sn \<and>
          (emcTimeout s \<le> 0 \<or> (\<forall>i\<le>j. dval (wait_counter double_zero i) < emcTimeout s))"
  then have nd: "\<forall>i<j. poll_valid w (n_polls s + i) \<and> poll_peek w (n_polls s + i) = NML_no_data"
    and b: "emcStatusBuffer s" by blast+
  have before: "\<forall>i<j. echo_at w s i \<noteq> Some sn"
    using no_data_poll_ok(2) [OF nd b assms] h by (simp add: echo_at_def)
  have at: "echo_at w s j = Some sn"
    using poll_new_status [OF b assms, of w j] h by (simp add: echo_at_def)
  have "emcTimeout s \<le> 0 \<or> (\<forall>i\<le>j. dval (wait_counter double_zero i) < emcTimeout s)"
    using h by blast
  then show "emcCommandWaitReceived w sn s =
            Some (Return 0, snd (updateStatus w ((poll_and_sleep w ^^ j) s)))"
    unfolding emcCommandWaitReceived_def
    by (rule wait_received_success [OF assms before at])
next
  assume h: "0 < emcTimeout s \<and>
          (\<forall>i<n. dval (wait_counter double_zero i) < emcTimeout s) \<and>
          \<not> dval (wait_counter double_zero n) < emcTimeout s \<and>
          (\<forall>i<n. echo_at w s i \<noteq> Some sn)"
  then show "emcCommandWaitReceived w sn s = Some (Return (-1), (poll_and_sleep w ^^ n) s)"
    unfolding emcCommandWaitReceived_def
    using wait_received_timeout [OF assms, of n w sn double_zero] by blast
qed

text \<open>
  Three runs. With the timeout off, two polls without new data and then the echo. With
  a timeout of 1.0 the tenth sum of delays is 0.9999999999999999, so an eleventh poll is
  made: if it brings the echo the wait returns 0, and if none of the eleven does the
  wait returns -1 after them.
\<close>

theorem emcCommandWaitReceived_echo_or_timeout_witness:
  "emcCommandWaitReceived world_no_data_twice 5 (halui_connected (stat_of 0 RCS_DONE)) =
     Some (Return 0,
           snd (updateStatus world_no_data_twice
                 ((poll_and_sleep world_no_data_twice ^^ 2)
                    (halui_connected (stat_of 0 RCS_DONE)))))
   \<and> fst (updateStatus world_no_data_twice
            ((poll_and_sleep world_no_data_twice ^^ 0)
               (halui_connected (stat_of 0 RCS_DONE)))) = 0
   \<and> fst (updateStatus world_no_data_twice
            ((poll_and_sleep world_no_data_twice ^^ 1)
               (halui_connected (stat_of 0 RCS_DONE)))) = 0
   \<and> emcCommandWaitReceived world_echo_at_poll_10 7
        ((halui_connected (stat_of 0 RCS_DONE))\<lparr>emcTimeout := 1\<rparr>) =
     Some (Return 0,
           snd (updateStatus world_echo_at_poll_10
                 ((poll_and_sleep world_echo_at_poll_10 ^^ 10)
                    ((halui_connected (stat_of 0 RCS_DONE))\<lparr>emcTimeout := 1\<rparr>))))
   \<and> emcCommandWaitReceived (world_up (\<lambda>n. stat_of 0 RCS_EXEC)) 7
        ((halui_connected (stat_of 0 RCS_DONE))\<lparr>emcTimeout := 1\<rparr>) =
     Some (Return (-1),
           (poll_and_sleep (world_up (\<lambda>n. stat_of 0 RCS_EXEC)) ^^ 11)
             ((halui_connected (stat_of 0 RCS_DONE))\<lparr>emcTimeout := 1\<rparr>))"
proof -
  let ?s = "halui_connected (stat_of 0 RCS_DONE)"
  let ?w = "world_no_data_twice"
  let ?s' = "(halui_connected (stat_of 0 RCS_DONE))\<lparr>emcTimeout := 1\<rparr>"
  let ?w' = "world_up (\<lambda>n. stat_of 0 RCS_EXEC)"
  let ?v = "world_echo_at_poll_10"
  have ns: "emcStatus ?s \<noteq> None" and ns': "emcStatus ?s' \<noteq> None"
    by (simp_all add: halui_connected_def)
  have b: "emcStatusBuffer ?s" and b': "emcStatusBuffer ?s'"
    by (simp_all add: halui_connected_def)
  have p: "n_polls ?s = 0" and p': "n_polls ?s' = 0"
    by (simp_all add: halui_connected_def halui_static_def)
  have t: "emcTimeout ?s = 0" and t': "emcTimeout ?s' = 1"
    by (simp_all add: halui_connected_def halui_static_def)
  have nd: "\<forall>i<2. poll_valid ?w (n_polls ?s + i) \<and> poll_peek ?w (n_polls ?s + i) = NML_no_data"
    by (simp add: p world_no_data_twice_def world_up_def)
  have h2: "emcStatusBuffer ?s \<and> map_option echo_serial_number (emcStatus ?s) \<noteq> Some 5 \<and>
          (\<forall>i<2. poll_valid ?w (n_polls ?s + i) \<and> poll_peek ?w (n_polls ?s + i) = NML_no_data) \<and>
          poll_valid ?w (n_polls ?s + 2) \<and> poll_peek ?w (n_polls ?s + 2) = EMC_STAT_TYPE \<and>
          echo_serial_number (poll_mem ?w (n_polls ?s + 2)) = 5 \<and>
          (emcTimeout ?s \<le> 0 \<or> (\<forall>i\<le>2. dval (wait_counter double_zero i) < emcTimeout ?s))"
    using nd b
    by (simp add: world_no_data_twice_def world_up_def stat_of_def halui_connected_def
          halui_static_def)
  have h1: "(\<forall>i<2. echo_at ?w ?s i \<noteq> Some 5) \<and> echo_at ?w ?s 2 = Some 5 \<and>
          (emcTimeout ?s \<le> 0 \<or> (\<forall>i\<le>2. dval (wait_counter double_zero i) < emcTimeout ?s))"
  proof (intro conjI)
    show "\<forall>i<2. echo_at ?w ?s i \<noteq> Some 5"
      using no_data_poll_ok(2) [OF nd b ns]
      by (simp add: echo_at_def halui_connected_def stat_of_def)
    have "emcStatus (snd (updateStatus ?w ((poll_and_sleep ?w ^^ 2) ?s)))
            = Some (poll_mem ?w (n_polls ?s + 2))"
      by (rule poll_new_status [OF b ns])
         (simp_all add: p world_no_data_twice_def world_up_def)
    then show "echo_at ?w ?s 2 = Some 5"
      by (simp add: echo_at_def world_no_data_twice_def world_up_def stat_of_def)
    show "emcTimeout ?s \<le> 0 \<or> (\<forall>i\<le>2. dval (wait_counter double_zero i) < emcTimeout ?s)"
      by (simp add: t)
  qed
  have e: "echo_at ?w' ?s' i = Some 0" for i
  proof -
    have "emcStatus (snd (updateStatus ?w' ((poll_and_sleep ?w' ^^ i) ?s')))
            = Some (poll_mem ?w' (n_polls ?s' + i))"
      by (rule poll_new_status [OF b' ns']) (simp_all add: world_up_def)
    then show ?thesis by (simp add: echo_at_def world_up_def stat_of_def)
  qed
  have ev: "echo_at ?v ?s' i = Some (if i < 10 then 0 else 7)" for i
  proof -
    have "emcStatus (snd (updateStatus ?v ((poll_and_sleep ?v ^^ i) ?s')))
            = Some (poll_mem ?v (n_polls ?s' + i))"
      by (rule poll_new_status [OF b' ns'])
         (simp_all add: world_echo_at_poll_10_def world_up_def)
    then have "echo_at ?v ?s' i = Some (echo_serial_number (poll_mem ?v i))"
      unfolding p' echo_at_def by simp
    then show ?thesis
      by (simp add: world_echo_at_poll_10_def world_up_def stat_of_def)
  qed
  have below: "\<forall>i\<le>10. dval (wait_counter double_zero i) < emcTimeout ?s'"
    unfolding t' using wait_counter_below_1 by simp
  have below': "\<forall>i<11. dval (wait_counter double_zero i) < emcTimeout ?s'"
    unfolding t' using wait_counter_below_1 by simp
  have reach: "\<not> dval (wait_counter double_zero 11) < emcTimeout ?s'"
    unfolding t' by (rule wait_counter_reaches_1)
  have h4: "(\<forall>i<10. echo_at ?v ?s' i \<noteq> Some 7) \<and> echo_at ?v ?s' 10 = Some 7 \<and>
          (emcTimeout ?s' \<le> 0 \<or> (\<forall>i\<le>10. dval (wait_counter double_zero i) < emcTimeout ?s'))"
    using below by (simp add: ev)
  have h3: "0 < emcTimeout ?s' \<and>
          (\<forall>i<11. dval (wait_counter double_zero i) < emcTimeout ?s') \<and>
          \<not> dval (wait_counter double_zero 11) < emcTimeout ?s' \<and>
          (\<forall>i<11. echo_at ?w' ?s' i \<noteq> Some 7)"
    using below' reach by (simp add: t' e)
  from emcCommandWaitReceived_echo_or_timeout [OF ns, where w = ?w and sn = 5 and j = 2] h1 h2
  have r1: "emcCommandWaitReceived ?w 5 ?s =
     Some (Return 0, snd (updateStatus ?w ((poll_and_sleep ?w ^^ 2) ?s)))"
    and r2: "\<forall>i<2. fst (updateStatus ?w ((poll_and_sleep ?w ^^ i) ?s)) = 0"
    by blast+
  from emcCommandWaitReceived_echo_or_timeout [OF ns', where w = ?v and sn = 7 and j = 10] h4
  have r4: "emcCommandWaitReceived ?v 7 ?s' =
     Some (Return 0, snd (updateStatus ?v ((poll_and_sleep ?v ^^ 10) ?s')))"
    by blast
  from emcCommandWaitReceived_echo_or_timeout [OF ns', where w = ?w' and sn = 7 and n = 11] h3
  have r3: "emcCommandWaitReceived ?w' 7 ?s' = Some (Return (-1), (poll_and_sleep ?w' ^^ 11) ?s')"
    by blast
  have r20: "fst (updateStatus ?w ((poll_and_sleep ?w ^^ 0) ?s)) = 0"
    and r21: "fst (updateStatus ?w ((poll_and_sleep ?w ^^ 1) ?s)) = 0"
    using r2 [rule_format, of 0] r2 [rule_format, of 1] by (simp_all del: funpow.simps)
  show ?thesis using r1 r20 r21 r4 r3 by blast
qed

section \<open>What a wait leaves unchanged\<close>

lemma cmd_writes_append: "cmd_writes (xs @ ys) = cmd_writes xs @ cmd_writes ys"
  by (induction xs rule: cmd_writes.induct) simp_all

lemma wait_frame_refl: "wait_frame s s"
  by (simp add: wait_frame_def)

lemma wait_frame_updateStatus: "wait_frame s (snd (updateStatus w s))"
  by (simp add: wait_frame_def updateStatus_frame)

lemma wait_frame_poll_and_sleep:
  "wait_frame (poll_and_sleep w s) s' \<Longrightarrow> wait_frame s s'"
  by (simp add: wait_frame_def poll_and_sleep_def updateStatus_frame esleep_frame
        cmd_writes_append)

lemma wait_frame_trans: "wait_frame s s1 \<Longrightarrow> wait_frame s1 s2 \<Longrightarrow> wait_frame s s2"
  by (simp add: wait_frame_def)

lemma wait_received_frame:
  assumes run: "emcCommandWaitReceived_while w sn endv s = Some y"
  shows "wait_frame s (snd y)"
proof (rule emcCommandWaitReceived_while.raw_induct
    [where P = "\<lambda>w sn endv s y. wait_frame s (snd y)", OF _ run], goal_cases)
  case (1 loop w sn endv s y)
  note IH = 1(1) and eq = 1(2)
  obtain r s1 where u: "updateStatus w s = (r, s1)" by (cases "updateStatus w s")
  have f1: "wait_frame s s1" using wait_frame_updateStatus [of s w] u by simp
  show ?case
  proof (cases "emcTimeout s \<le> 0 \<or> dval endv < emcTimeout s")
    case False
    then show ?thesis using eq by (auto simp: wait_frame_refl)
  next
    case c: True
    show ?thesis
    proof (cases "emcStatus s1")
      case None
      then show ?thesis using eq c u f1 by auto
    next
      case (Some st)
      show ?thesis
      proof (cases "echo_serial_number st = sn")
        case True
        then show ?thesis using eq c u Some f1 by auto
      next
        case False
        then have "loop w sn (double_add endv EMC_COMMAND_DELAY) (poll_and_sleep w s) = Some y"
          using eq c u Some by (simp add: poll_and_sleep_def)
        then show ?thesis using IH wait_frame_poll_and_sleep by blast
      qed
    qed
  qed
qed

section \<open>The wait for completion\<close>

lemma status_at_Suc: "status_at w s (Suc i) = status_at w (poll_and_sleep w s) i"
  by (simp add: status_at_def funpow_swap1)

lemma wait_done_step:
  assumes "emcTimeout s \<le> 0 \<or> dval endv < emcTimeout s"
    and "emcStatus s \<noteq> None"
    and "status_at w s 0 \<noteq> Some RCS_DONE" and "status_at w s 0 \<noteq> Some RCS_ERROR"
  shows "emcCommandWaitDone_while w endv s =
         emcCommandWaitDone_while w (double_add endv EMC_COMMAND_DELAY) (poll_and_sleep w s)"
proof -
  obtain r s1 where u: "updateStatus w s = (r, s1)" by (cases "updateStatus w s")
  have "emcStatus s1 \<noteq> None"
    using updateStatus_frame(12) [of w s] assms(2) u by simp
  then obtain st where st: "emcStatus s1 = Some st" by auto
  have "status st \<noteq> RCS_DONE" and "status st \<noteq> RCS_ERROR"
    using assms(3,4) u st by (simp_all add: status_at_def)
  then show ?thesis
    using assms(1) u st
    by (subst emcCommandWaitDone_while.simps) (simp add: poll_and_sleep_def)
qed

lemma wait_done_error_now:
  assumes "emcTimeout s \<le> 0 \<or> dval endv < emcTimeout s"
    and "emcStatus s \<noteq> None" and "status_at w s 0 = Some RCS_ERROR"
  shows "emcCommandWaitDone_while w endv s = Some (Return (-1), snd (updateStatus w s))"
proof -
  obtain r s1 where u: "updateStatus w s = (r, s1)" by (cases "updateStatus w s")
  obtain st where st: "emcStatus s1 = Some st" "status st = RCS_ERROR"
    using assms(3) u by (auto simp: status_at_def)
  show ?thesis
    using assms(1) u st
    by (subst emcCommandWaitDone_while.simps) simp
qed

lemma wait_done_error:
  assumes "emcStatus s \<noteq> None"
    and "\<forall>i<j. status_at w s i \<noteq> Some RCS_DONE \<and> status_at w s i \<noteq> Some RCS_ERROR"
    and "status_at w s j = Some RCS_ERROR"
    and "emcTimeout s \<le> 0 \<or> (\<forall>i\<le>j. dval (wait_counter endv i) < emcTimeout s)"
  shows "emcCommandWaitDone_while w endv s =
         Some (Return (-1), snd (updateStatus w ((poll_and_sleep w ^^ j) s)))"
  using assms
proof (induction j arbitrary: s endv)
  case 0
  then show ?case by (simp add: wait_done_error_now)
next
  case (Suc j)
  have c: "emcTimeout s \<le> 0 \<or> dval endv < emcTimeout s"
    using Suc.prems(4) by auto
  have e0: "status_at w s 0 \<noteq> Some RCS_DONE" "status_at w s 0 \<noteq> Some RCS_ERROR"
    using Suc.prems(2) by simp_all
  have step: "emcCommandWaitDone_while w endv s =
      emcCommandWaitDone_while w (double_add endv EMC_COMMAND_DELAY) (poll_and_sleep w s)"
    by (rule wait_done_step [OF c Suc.prems(1) e0])
  have "emcCommandWaitDone_while w (double_add endv EMC_COMMAND_DELAY) (poll_and_sleep w s) =
      Some (Return (-1), snd (updateStatus w ((poll_and_sleep w ^^ j) (poll_and_sleep w s))))"
  proof (rule Suc.IH)
    show "emcStatus (poll_and_sleep w s) \<noteq> None"
      using Suc.prems(1) by (simp add: poll_and_sleep_frame)
    show "\<forall>i<j. status_at w (poll_and_sleep w s) i \<noteq> Some RCS_DONE \<and>
                status_at w (poll_and_sleep w s) i \<noteq> Some RCS_ERROR"
      using Suc.prems(2) by (simp add: status_at_Suc [symmetric])
    show "status_at w (poll_and_sleep w s) j = Some RCS_ERROR"
      using Suc.prems(3) by (simp add: status_at_Suc)
    show "emcTimeout (poll_and_sleep w s) \<le> 0 \<or>
          (\<forall>i\<le>j. dval (wait_counter (double_add endv EMC_COMMAND_DELAY) i)
                   < emcTimeout (poll_and_sleep w s))"
    proof (cases "emcTimeout s \<le> 0")
      case True
      then show ?thesis by (simp add: poll_and_sleep_frame)
    next
      case False
      then have a: "\<forall>i\<le>Suc j. dval (wait_counter endv i) < emcTimeout s"
        using Suc.prems(4) by blast
      have "dval (wait_counter (double_add endv EMC_COMMAND_DELAY) i) < emcTimeout s"
        if "i \<le> j" for i
        using a [rule_format, of "Suc i"] that by simp
      then show ?thesis by (simp add: poll_and_sleep_frame)
    qed
  qed
  then show ?case using step by (simp add: funpow_swap1)
qed

lemma wait_done_timeout:
  assumes "emcStatus s \<noteq> None" and "0 < emcTimeout s"
    and "\<forall>i<j. status_at w s i \<noteq> Some RCS_DONE \<and> status_at w s i \<noteq> Some RCS_ERROR"
    and "\<forall>i<j. dval (wait_counter endv i) < emcTimeout s"
    and "\<not> dval (wait_counter endv j) < emcTimeout s"
  shows "emcCommandWaitDone_while w endv s =
         Some (Return (-1), (poll_and_sleep w ^^ j) s)"
  using assms
proof (induction j arbitrary: s endv)
  case 0
  then show ?case by (subst emcCommandWaitDone_while.simps) simp
next
  case (Suc j)
  have c: "emcTimeout s \<le> 0 \<or> dval endv < emcTimeout s"
    using Suc.prems(4) [rule_format, of 0] by simp
  have e0: "status_at w s 0 \<noteq> Some RCS_DONE" "status_at w s 0 \<noteq> Some RCS_ERROR"
    using Suc.prems(3) by simp_all
  have step: "emcCommandWaitDone_while w endv s =
      emcCommandWaitDone_while w (double_add endv EMC_COMMAND_DELAY) (poll_and_sleep w s)"
    by (rule wait_done_step [OF c Suc.prems(1) e0])
  have "emcCommandWaitDone_while w (double_add endv EMC_COMMAND_DELAY) (poll_and_sleep w s) =
      Some (Return (-1), (poll_and_sleep w ^^ j) (poll_and_sleep w s))"
  proof (rule Suc.IH)
    show "emcStatus (poll_and_sleep w s) \<noteq> None"
      using Suc.prems(1) by (simp add: poll_and_sleep_frame)
    show "0 < emcTimeout (poll_and_sleep w s)"
      using Suc.prems(2) by (simp add: poll_and_sleep_frame)
    show "\<forall>i<j. status_at w (poll_and_sleep w s) i \<noteq> Some RCS_DONE \<and>
                status_at w (poll_and_sleep w s) i \<noteq> Some RCS_ERROR"
      using Suc.prems(3) by (simp add: status_at_Suc [symmetric])
    show "\<forall>i<j. dval (wait_counter (double_add endv EMC_COMMAND_DELAY) i)
             < emcTimeout (poll_and_sleep w s)"
    proof (intro allI impI)
      fix i assume "i < j"
      then show "dval (wait_counter (double_add endv EMC_COMMAND_DELAY) i)
             < emcTimeout (poll_and_sleep w s)"
        using Suc.prems(4) [rule_format, of "Suc i"] by (simp add: poll_and_sleep_frame)
    qed
    show "\<not> dval (wait_counter (double_add endv EMC_COMMAND_DELAY) j)
             < emcTimeout (poll_and_sleep w s)"
      using Suc.prems(5) by (simp add: poll_and_sleep_frame)
  qed
  then show ?case using step by (simp add: funpow_swap1)
qed

text \<open>With a positive timeout that the counter reaches, both waits return.\<close>

lemma wait_done_returns:
  assumes "0 < emcTimeout s" and "\<not> dval (wait_counter endv n) < emcTimeout s"
  shows "\<exists>y. emcCommandWaitDone_while w endv s = Some y"
  using assms
proof (induction n arbitrary: s endv)
  case 0
  then show ?case by (subst emcCommandWaitDone_while.simps) simp
next
  case (Suc n)
  obtain r s1 where u: "updateStatus w s = (r, s1)" by (cases "updateStatus w s")
  have t1: "emcTimeout (esleep (dval EMC_COMMAND_DELAY) s1) = emcTimeout s"
    using updateStatus_frame(1) [of w s] u by (simp add: esleep_frame)
  have "\<exists>y. emcCommandWaitDone_while w (double_add endv EMC_COMMAND_DELAY)
              (esleep (dval EMC_COMMAND_DELAY) s1) = Some y"
    by (rule Suc.IH) (use Suc.prems t1 in simp_all)
  then show ?case
    using u
    by (subst emcCommandWaitDone_while.simps) (auto split: option.splits)
qed

text \<open>With a status pointer that is not null, a wait that returns returns a value.\<close>

lemma wait_received_value:
  assumes run: "emcCommandWaitReceived_while w sn endv s = Some y"
  shows "emcStatus s \<noteq> None \<longrightarrow> (\<exists>r. fst y = Return r)"
proof (rule emcCommandWaitReceived_while.raw_induct
    [where P = "\<lambda>w sn endv s y. emcStatus s \<noteq> None \<longrightarrow> (\<exists>r. fst y = Return r)",
     OF _ run], goal_cases)
  case (1 loop w sn endv s y)
  note IH = 1(1) and eq = 1(2)
  show ?case
  proof
    assume ns: "emcStatus s \<noteq> None"
    obtain r s1 where u: "updateStatus w s = (r, s1)" by (cases "updateStatus w s")
    have "emcStatus s1 \<noteq> None"
      using updateStatus_frame(12) [of w s] ns u by simp
    then obtain st where st: "emcStatus s1 = Some st" by auto
    show "\<exists>r. fst y = Return r"
    proof (cases "emcTimeout s \<le> 0 \<or> dval endv < emcTimeout s")
      case False
      then show ?thesis using eq by auto
    next
      case c: True
      show ?thesis
      proof (cases "echo_serial_number st = sn")
        case True
        then show ?thesis using eq c u st by auto
      next
        case False
        then have rec: "loop w sn (double_add endv EMC_COMMAND_DELAY) (poll_and_sleep w s)
                          = Some y"
          using eq c u st by (simp add: poll_and_sleep_def)
        have "emcStatus (poll_and_sleep w s) \<noteq> None"
          using ns by (simp add: poll_and_sleep_frame)
        with IH [OF rec] show ?thesis by blast
      qed
    qed
  qed
qed

lemma wait_done_value:
  assumes run: "emcCommandWaitDone_while w endv s = Some y"
  shows "emcStatus s \<noteq> None \<longrightarrow> (\<exists>r. fst y = Return r)"
proof (rule emcCommandWaitDone_while.raw_induct
    [where P = "\<lambda>w endv s y. emcStatus s \<noteq> None \<longrightarrow> (\<exists>r. fst y = Return r)",
     OF _ run], goal_cases)
  case (1 loop w endv s y)
  note IH = 1(1) and eq = 1(2)
  show ?case
  proof
    assume ns: "emcStatus s \<noteq> None"
    obtain r s1 where u: "updateStatus w s = (r, s1)" by (cases "updateStatus w s")
    have "emcStatus s1 \<noteq> None"
      using updateStatus_frame(12) [of w s] ns u by simp
    then obtain st where st: "emcStatus s1 = Some st" by auto
    show "\<exists>r. fst y = Return r"
    proof (cases "emcTimeout s \<le> 0 \<or> dval endv < emcTimeout s")
      case False
      then show ?thesis using eq by auto
    next
      case c: True
      show ?thesis
      proof (cases "status st = RCS_DONE \<or> status st = RCS_ERROR")
        case True
        then show ?thesis using eq c u st by auto
      next
        case False
        then have rec: "loop w (double_add endv EMC_COMMAND_DELAY) (poll_and_sleep w s)
                          = Some y"
          using eq c u st by (simp add: poll_and_sleep_def)
        have "emcStatus (poll_and_sleep w s) \<noteq> None"
          using ns by (simp add: poll_and_sleep_frame)
        with IH [OF rec] show ?thesis by blast
      qed
    qed
  qed
qed

lemma status_new_status:
  assumes "emcStatusBuffer s" and "emcStatus s \<noteq> None"
    and "poll_valid w (n_polls s + i)" and "poll_peek w (n_polls s + i) = EMC_STAT_TYPE"
  shows "status_at w s i = Some (status (poll_mem w (n_polls s + i)))"
    and "echo_at w s i = Some (echo_serial_number (poll_mem w (n_polls s + i)))"
  using poll_new_status [OF assms] by (simp_all add: status_at_def echo_at_def)

lemma polls_invalid_keep:
  assumes "\<forall>k. \<not> poll_valid w k"
  shows "emcStatus ((poll_and_sleep w ^^ i) s) = emcStatus s"
    and "emcStatus (snd (updateStatus w ((poll_and_sleep w ^^ i) s))) = emcStatus s"
    and "fst (updateStatus w ((poll_and_sleep w ^^ i) s)) = -1"
proof -
  have u: "emcStatus (snd (updateStatus w t)) = emcStatus t \<and> fst (updateStatus w t) = -1" for t
    using assms by (simp add: updateStatus_def Let_def)
  show a: "emcStatus ((poll_and_sleep w ^^ i) s) = emcStatus s"
    by (induction i) (simp_all add: poll_and_sleep_def esleep_frame u)
  show "emcStatus (snd (updateStatus w ((poll_and_sleep w ^^ i) s))) = emcStatus s"
    using a u by simp
  show "fst (updateStatus w ((poll_and_sleep w ^^ i) s)) = -1"
    using u by simp
qed

section \<open>A wait ignores what the poll returns\<close>

text \<open>
  C9. A wait started with a non-null status pointer. (1) Whatever \<open>updateStatus\<close>
  returns, a pass of the loop whose snapshot does not echo the serial number is followed
  by the sleep and the next pass: the value returned by the poll occurs nowhere in the
  equation. (2) If the wait returns, it returns 0 with the serial number echoed in the
  snapshot, or -1 with a positive timeout that the counter of the loop, the machine's sum
  of one delay per poll made, has reached: there is no third way out. (3) With a timeout
  of 0 or less, and no poll ever observing the serial number, the wait does not return,
  and nor does \<open>emcCommandWaitDone\<close>, which starts with it.
\<close>

theorem wait_discards_poll_result:
  assumes "emcStatus s \<noteq> None"
  shows "((emcTimeout s \<le> 0 \<or> dval endv < emcTimeout s) \<and> echo_at w s 0 \<noteq> Some sn \<longrightarrow>
           emcCommandWaitReceived_while w sn endv s =
             emcCommandWaitReceived_while w sn (double_add endv EMC_COMMAND_DELAY)
               (esleep (dval EMC_COMMAND_DELAY) (snd (updateStatus w s))))
       \<and> (emcCommandWaitReceived w sn s = Some (oc, s') \<longrightarrow>
            oc = Return 0 \<and> map_option echo_serial_number (emcStatus s') = Some sn
          \<or> oc = Return (-1) \<and> 0 < emcTimeout s \<and>
            emcTimeout s \<le> dval (wait_counter double_zero (n_polls s' - n_polls s)))
       \<and> (emcTimeout s \<le> 0 \<and> (\<forall>i. echo_at w s i \<noteq> Some sn) \<longrightarrow>
            emcCommandWaitReceived w sn s = None \<and> emcCommandWaitDone w sn s = None)"
proof (intro conjI impI)
  assume "(emcTimeout s \<le> 0 \<or> dval endv < emcTimeout s) \<and> echo_at w s 0 \<noteq> Some sn"
  then show "emcCommandWaitReceived_while w sn endv s =
             emcCommandWaitReceived_while w sn (double_add endv EMC_COMMAND_DELAY)
               (esleep (dval EMC_COMMAND_DELAY) (snd (updateStatus w s)))"
    using wait_received_step [OF _ assms, of endv w sn] by (simp add: poll_and_sleep_def)
next
  assume "emcCommandWaitReceived w sn s = Some (oc, s')"
  then have "emcCommandWaitReceived_while w sn double_zero s = Some (oc, s')"
    by (simp add: emcCommandWaitReceived_def)
  from wait_received_result [OF this] assms
  show "oc = Return 0 \<and> map_option echo_serial_number (emcStatus s') = Some sn
          \<or> oc = Return (-1) \<and> 0 < emcTimeout s \<and>
            emcTimeout s \<le> dval (wait_counter double_zero (n_polls s' - n_polls s))"
    by auto
next
  assume h: "emcTimeout s \<le> 0 \<and> (\<forall>i. echo_at w s i \<noteq> Some sn)"
  then show "emcCommandWaitReceived w sn s = None"
    using wait_received_diverges [OF _ assms, of w sn double_zero]
    by (simp add: emcCommandWaitReceived_def)
  then show "emcCommandWaitDone w sn s = None"
    by (simp add: emcCommandWaitDone_def and_then_def)
qed

theorem wait_discards_poll_result_witness:
  "fst (updateStatus world_polls_fail (halui_connected (stat_of 0 RCS_DONE))) = -1
   \<and> emcCommandWaitReceived_while world_polls_fail 1 double_zero
       (halui_connected (stat_of 0 RCS_DONE)) =
       emcCommandWaitReceived_while world_polls_fail 1 (double_add double_zero EMC_COMMAND_DELAY)
         (esleep (dval EMC_COMMAND_DELAY)
            (snd (updateStatus world_polls_fail (halui_connected (stat_of 0 RCS_DONE)))))
   \<and> emcCommandWaitReceived world_polls_fail 1 (halui_connected (stat_of 0 RCS_DONE)) = None
   \<and> emcCommandWaitDone world_polls_fail 1 (halui_connected (stat_of 0 RCS_DONE)) = None
   \<and> emcCommandWaitReceived world_polls_fail 0 (halui_connected (stat_of 0 RCS_DONE)) =
       Some (Return 0, snd (updateStatus world_polls_fail (halui_connected (stat_of 0 RCS_DONE))))
   \<and> map_option echo_serial_number
        (emcStatus (snd (updateStatus world_polls_fail (halui_connected (stat_of 0 RCS_DONE)))))
       = Some 0"
proof -
  let ?s = "halui_connected (stat_of 0 RCS_DONE)"
  let ?w = "world_polls_fail"
  have ns: "emcStatus ?s \<noteq> None" by (simp add: halui_connected_def)
  have inv: "\<forall>k. \<not> poll_valid ?w k" by (simp add: world_polls_fail_def)
  have e: "echo_at ?w ?s i = Some 0" for i
    using polls_invalid_keep(2) [OF inv, of i ?s]
    by (simp add: echo_at_def halui_connected_def stat_of_def)
  have t: "emcTimeout ?s = 0" by (simp add: halui_connected_def halui_static_def)
  have h1: "(emcTimeout ?s \<le> 0 \<or> dval double_zero < emcTimeout ?s) \<and> echo_at ?w ?s 0 \<noteq> Some 1"
    by (simp add: t e)
  have h3: "emcTimeout ?s \<le> 0 \<and> (\<forall>i. echo_at ?w ?s i \<noteq> Some 1)"
    by (simp add: t e)
  have r0: "emcCommandWaitReceived ?w 0 ?s = Some (Return 0, snd (updateStatus ?w ?s))"
    unfolding emcCommandWaitReceived_def
    by (rule wait_received_hit [OF _ ns]) (simp_all add: t e)
  have f: "fst (updateStatus ?w ?s) = -1"
    using polls_invalid_keep(3) [OF inv, of 0 ?s] by simp
  from wait_discards_poll_result [OF ns, where w = ?w and sn = 1 and endv = double_zero] h1 h3
  have c1: "emcCommandWaitReceived_while ?w 1 double_zero ?s =
       emcCommandWaitReceived_while ?w 1 (double_add double_zero EMC_COMMAND_DELAY)
         (esleep (dval EMC_COMMAND_DELAY) (snd (updateStatus ?w ?s)))"
    and c3: "emcCommandWaitReceived ?w 1 ?s = None \<and> emcCommandWaitDone ?w 1 ?s = None"
    by blast+
  from wait_discards_poll_result [OF ns, where w = ?w and sn = 0
      and oc = "Return 0" and s' = "snd (updateStatus ?w ?s)"] r0
  have c2: "map_option echo_serial_number (emcStatus (snd (updateStatus ?w ?s))) = Some 0"
    by auto
  show ?thesis using f c1 c3 r0 c2 by blast
qed

section \<open>Remote error and timeout in the wait for completion\<close>

lemma wait_done_after_received:
  assumes "emcStatus s \<noteq> None" and "emcCommandWaitReceived w sn s = Some (Return 0, s1)"
  shows "emcCommandWaitDone w sn s = emcCommandWaitDone_while w double_zero s1"
    and "emcStatus s1 \<noteq> None" and "emcTimeout s1 = emcTimeout s"
proof -
  show "emcCommandWaitDone w sn s = emcCommandWaitDone_while w double_zero s1"
    using assms(2) by (simp add: emcCommandWaitDone_def and_then_def)
  have "emcCommandWaitReceived_while w sn double_zero s = Some (Return 0, s1)"
    using assms(2) by (simp add: emcCommandWaitReceived_def)
  from wait_received_frame [OF this] have f: "wait_frame s s1" by simp
  show "emcStatus s1 \<noteq> None" using f assms(1) by (simp add: wait_frame_def)
  show "emcTimeout s1 = emcTimeout s" using f by (simp add: wait_frame_def)
qed

lemma received_at_once:
  assumes "emcStatusBuffer s" and "emcStatus s \<noteq> None"
    and "poll_valid w (n_polls s)" and "poll_peek w (n_polls s) = EMC_STAT_TYPE"
    and "echo_serial_number (poll_mem w (n_polls s)) = sn"
  shows "emcCommandWaitReceived w sn s = Some (Return 0, snd (updateStatus w s))"
proof -
  have "echo_at w s 0 = Some sn"
    using status_new_status(2) [OF assms(1,2), of w 0] assms(3,4,5) by simp
  then show ?thesis
    unfolding emcCommandWaitReceived_def
    using wait_received_hit [OF _ assms(2), of double_zero w sn] by (simp add: double_zero_def dval_def) linarith
qed

lemma updateStatus_new:
  assumes "emcStatusBuffer s" and "emcStatus s \<noteq> None"
    and "poll_valid w (n_polls s)" and "poll_peek w (n_polls s) = EMC_STAT_TYPE"
  shows "updateStatus w s = (0, s\<lparr>n_polls := Suc (n_polls s),
                                    emcStatus := Some (poll_mem w (n_polls s))\<rparr>)"
  using assms by (auto simp: updateStatus_def Let_def)

lemma wait_counter_quarter:
  "i < 3 \<Longrightarrow> dval (wait_counter double_zero i) < 1 / 4"
  "\<not> dval (wait_counter double_zero 3) < 1 / 4"
proof -
  have z: "dval double_zero < 1 / 4" by (simp add: double_zero_def dval_def)
  show "dval (wait_counter double_zero i) < 1 / 4" if "i < 3"
  proof -
    have "i = 0 \<or> i = 1 \<or> i = 2" using that by presburger
    then show ?thesis
      using z by (elim disjE) (simp_all add: double_add_zero_delay wait_counter_2 dval_def)
  qed
  show "\<not> dval (wait_counter double_zero 3) < 1 / 4"
    by (simp add: wait_counter_3 dval_def)
qed

text \<open>
  C3, as the code has it. Once the wait for receipt has returned 0: (1) if the first
  snapshot whose status is DONE or ERROR has ERROR, and the timeout is off or has not
  elapsed by then, \<open>emcCommandWaitDone\<close> returns -1; (2) if the timeout is positive and
  elapses after \<open>n\<close> passes, the counter of the loop being below it before each of them
  and not after the last, with no snapshot among the \<open>n\<close> showing DONE or ERROR, it
  returns -1 as well. The two failures are the same return value.
\<close>

theorem emcCommandWaitDone_error_is_minus_one:
  assumes "emcStatus s \<noteq> None"
    and "emcCommandWaitReceived w sn s = Some (Return 0, s1)"
  shows "((\<forall>i<j. status_at w s1 i \<noteq> Some RCS_DONE \<and> status_at w s1 i \<noteq> Some RCS_ERROR) \<and>
          status_at w s1 j = Some RCS_ERROR \<and>
          (emcTimeout s \<le> 0 \<or> (\<forall>i\<le>j. dval (wait_counter double_zero i) < emcTimeout s)) \<longrightarrow>
          emcCommandWaitDone w sn s =
            Some (Return (-1), snd (updateStatus w ((poll_and_sleep w ^^ j) s1))))
       \<and> (0 < emcTimeout s \<and>
          (\<forall>i<n. dval (wait_counter double_zero i) < emcTimeout s) \<and>
          \<not> dval (wait_counter double_zero n) < emcTimeout s \<and>
          (\<forall>i<n. status_at w s1 i \<noteq> Some RCS_DONE \<and> status_at w s1 i \<noteq> Some RCS_ERROR) \<longrightarrow>
          emcCommandWaitDone w sn s = Some (Return (-1), (poll_and_sleep w ^^ n) s1))"
proof (intro conjI impI)
  note a = wait_done_after_received [OF assms]
  assume h: "(\<forall>i<j. status_at w s1 i \<noteq> Some RCS_DONE \<and> status_at w s1 i \<noteq> Some RCS_ERROR) \<and>
          status_at w s1 j = Some RCS_ERROR \<and>
          (emcTimeout s \<le> 0 \<or> (\<forall>i\<le>j. dval (wait_counter double_zero i) < emcTimeout s))"
  then have "emcTimeout s1 \<le> 0 \<or> (\<forall>i\<le>j. dval (wait_counter double_zero i) < emcTimeout s1)"
    unfolding a(3) by blast
  with h show "emcCommandWaitDone w sn s =
            Some (Return (-1), snd (updateStatus w ((poll_and_sleep w ^^ j) s1)))"
    unfolding a(1) using wait_done_error [OF a(2), of j w double_zero] by blast
next
  note a = wait_done_after_received [OF assms]
  assume h: "0 < emcTimeout s \<and>
          (\<forall>i<n. dval (wait_counter double_zero i) < emcTimeout s) \<and>
          \<not> dval (wait_counter double_zero n) < emcTimeout s \<and>
          (\<forall>i<n. status_at w s1 i \<noteq> Some RCS_DONE \<and> status_at w s1 i \<noteq> Some RCS_ERROR)"
  then have "0 < emcTimeout s1"
    and "\<forall>i<n. status_at w s1 i \<noteq> Some RCS_DONE \<and> status_at w s1 i \<noteq> Some RCS_ERROR"
    and "\<forall>i<n. dval (wait_counter double_zero i) < emcTimeout s1"
    and "\<not> dval (wait_counter double_zero n) < emcTimeout s1"
    unfolding a(3) by blast+
  then show "emcCommandWaitDone w sn s = Some (Return (-1), (poll_and_sleep w ^^ n) s1)"
    unfolding a(1) by (rule wait_done_timeout [OF a(2)])
qed

lemma scenario_error_after_echo:
  defines "s \<equiv> halui_connected (stat_of 0 RCS_DONE)"
  defines "s1 \<equiv> snd (updateStatus world_error_after_echo s)"
  shows "emcStatus s \<noteq> None"
    and "emcCommandWaitReceived world_error_after_echo 1 s = Some (Return 0, s1)"
    and "status_at world_error_after_echo s1 0 = Some RCS_ERROR"
    and "emcTimeout s = 0" and "emcStatus s1 \<noteq> None" and "emcTimeout s1 = 0"
proof -
  show ns: "emcStatus s \<noteq> None" by (simp add: s_def halui_connected_def)
  have b: "emcStatusBuffer s" and p: "n_polls s = 0"
    by (simp_all add: s_def halui_connected_def halui_static_def)
  show "emcCommandWaitReceived world_error_after_echo 1 s = Some (Return 0, s1)"
    unfolding s1_def
    by (rule received_at_once [OF b ns])
       (simp_all add: p world_error_after_echo_def world_up_def stat_of_def)
  have u: "updateStatus world_error_after_echo s =
      (0, s\<lparr>n_polls := Suc (n_polls s),
             emcStatus := Some (poll_mem world_error_after_echo (n_polls s))\<rparr>)"
    by (rule updateStatus_new [OF b ns])
       (simp_all add: world_error_after_echo_def world_up_def)
  have b1: "emcStatusBuffer s1" and ns1: "emcStatus s1 \<noteq> None" and p1: "n_polls s1 = 1"
    using b p by (simp_all add: s1_def u)
  show "emcStatus s1 \<noteq> None" by (rule ns1)
  show "status_at world_error_after_echo s1 0 = Some RCS_ERROR"
    using status_new_status(1) [OF b1 ns1, of world_error_after_echo 0]
    by (simp add: p1 world_error_after_echo_def world_up_def stat_of_def)
  show "emcTimeout s = 0" by (simp add: s_def halui_connected_def halui_static_def)
  then show "emcTimeout s1 = 0" by (simp add: s1_def updateStatus_frame)
qed

lemma scenario_exec_forever:
  fixes T :: real
  defines "s \<equiv> (halui_connected (stat_of 0 RCS_DONE))\<lparr>emcTimeout := T\<rparr>"
  defines "s1 \<equiv> snd (updateStatus world_exec_forever s)"
  shows "emcStatus s \<noteq> None"
    and "emcCommandWaitReceived world_exec_forever 1 s = Some (Return 0, s1)"
    and "status_at world_exec_forever s1 i = Some RCS_EXEC"
    and "emcTimeout s = T" and "emcStatus s1 \<noteq> None" and "emcTimeout s1 = T"
proof -
  show ns: "emcStatus s \<noteq> None" by (simp add: s_def halui_connected_def)
  have b: "emcStatusBuffer s" and p: "n_polls s = 0"
    by (simp_all add: s_def halui_connected_def halui_static_def)
  show "emcCommandWaitReceived world_exec_forever 1 s = Some (Return 0, s1)"
    unfolding s1_def
    by (rule received_at_once [OF b ns])
       (simp_all add: p world_exec_forever_def world_up_def stat_of_def)
  have u: "updateStatus world_exec_forever s =
      (0, s\<lparr>n_polls := Suc (n_polls s),
             emcStatus := Some (poll_mem world_exec_forever (n_polls s))\<rparr>)"
    by (rule updateStatus_new [OF b ns])
       (simp_all add: world_exec_forever_def world_up_def)
  have b1: "emcStatusBuffer s1" and ns1: "emcStatus s1 \<noteq> None"
    using b p by (simp_all add: s1_def u)
  show "emcStatus s1 \<noteq> None" by (rule ns1)
  show "status_at world_exec_forever s1 i = Some RCS_EXEC"
    using status_new_status(1) [OF b1 ns1, of world_exec_forever i]
    by (simp add: world_exec_forever_def world_up_def stat_of_def)
  show t: "emcTimeout s = T" by (simp add: s_def)
  then show t1: "emcTimeout s1 = T" by (simp add: s1_def updateStatus_frame)
qed

text \<open>
  Three runs, each with the command echoed by the first poll. The second poll shows
  ERROR. The status stays EXEC and a timeout of 0.25 elapses after three passes. The
  status stays EXEC and a timeout of 1.0 elapses after eleven passes, the tenth sum of
  delays being 0.9999999999999999.
\<close>

theorem emcCommandWaitDone_error_is_minus_one_witness:
  "emcCommandWaitDone world_error_after_echo 1 (halui_connected (stat_of 0 RCS_DONE)) =
     Some (Return (-1),
       snd (updateStatus world_error_after_echo
         ((poll_and_sleep world_error_after_echo ^^ 0)
            (snd (updateStatus world_error_after_echo (halui_connected (stat_of 0 RCS_DONE)))))))
   \<and> emcCommandWaitDone world_exec_forever 1
        ((halui_connected (stat_of 0 RCS_DONE))\<lparr>emcTimeout := 1 / 4\<rparr>) =
     Some (Return (-1),
       (poll_and_sleep world_exec_forever ^^ 3)
         (snd (updateStatus world_exec_forever
            ((halui_connected (stat_of 0 RCS_DONE))\<lparr>emcTimeout := 1 / 4\<rparr>))))
   \<and> emcCommandWaitDone world_exec_forever 1
        ((halui_connected (stat_of 0 RCS_DONE))\<lparr>emcTimeout := 1\<rparr>) =
     Some (Return (-1),
       (poll_and_sleep world_exec_forever ^^ 11)
         (snd (updateStatus world_exec_forever
            ((halui_connected (stat_of 0 RCS_DONE))\<lparr>emcTimeout := 1\<rparr>))))"
proof -
  note e = scenario_error_after_echo
    and x = scenario_exec_forever [where T = "1 / 4"]
    and y = scenario_exec_forever [where T = 1]
  let ?e = "halui_connected (stat_of 0 RCS_DONE)"
  let ?e1 = "snd (updateStatus world_error_after_echo ?e)"
  let ?x = "(halui_connected (stat_of 0 RCS_DONE))\<lparr>emcTimeout := 1 / 4\<rparr>"
  let ?x1 = "snd (updateStatus world_exec_forever ?x)"
  let ?y = "(halui_connected (stat_of 0 RCS_DONE))\<lparr>emcTimeout := 1\<rparr>"
  let ?y1 = "snd (updateStatus world_exec_forever ?y)"
  have h1: "(\<forall>i<0. status_at world_error_after_echo ?e1 i \<noteq> Some RCS_DONE \<and>
              status_at world_error_after_echo ?e1 i \<noteq> Some RCS_ERROR) \<and>
          status_at world_error_after_echo ?e1 0 = Some RCS_ERROR \<and>
          (emcTimeout ?e \<le> 0 \<or> (\<forall>i\<le>0. dval (wait_counter double_zero i) < emcTimeout ?e))"
    using e(3,4) by simp
  have h2: "0 < emcTimeout ?x \<and>
          (\<forall>i<3. dval (wait_counter double_zero i) < emcTimeout ?x) \<and>
          \<not> dval (wait_counter double_zero 3) < emcTimeout ?x \<and>
          (\<forall>i<3. status_at world_exec_forever ?x1 i \<noteq> Some RCS_DONE \<and>
                  status_at world_exec_forever ?x1 i \<noteq> Some RCS_ERROR)"
    unfolding x(4) using wait_counter_quarter by (simp add: x(3))
  have h3: "0 < emcTimeout ?y \<and>
          (\<forall>i<11. dval (wait_counter double_zero i) < emcTimeout ?y) \<and>
          \<not> dval (wait_counter double_zero 11) < emcTimeout ?y \<and>
          (\<forall>i<11. status_at world_exec_forever ?y1 i \<noteq> Some RCS_DONE \<and>
                   status_at world_exec_forever ?y1 i \<noteq> Some RCS_ERROR)"
    unfolding y(4) using wait_counter_below_1 wait_counter_reaches_1 by (simp add: y(3))
  from emcCommandWaitDone_error_is_minus_one [OF e(1,2), where j = 0] h1
  have r1: "emcCommandWaitDone world_error_after_echo 1 ?e =
     Some (Return (-1),
       snd (updateStatus world_error_after_echo
         ((poll_and_sleep world_error_after_echo ^^ 0) ?e1)))"
    by blast
  from emcCommandWaitDone_error_is_minus_one [OF x(1,2), where n = 3] h2
  have r2: "emcCommandWaitDone world_exec_forever 1 ?x =
     Some (Return (-1), (poll_and_sleep world_exec_forever ^^ 3) ?x1)"
    by blast
  from emcCommandWaitDone_error_is_minus_one [OF y(1,2), where n = 11] h3
  have r3: "emcCommandWaitDone world_exec_forever 1 ?y =
     Some (Return (-1), (poll_and_sleep world_exec_forever ^^ 11) ?y1)"
    by blast
  show ?thesis using r1 r2 r3 by blast
qed

text \<open>
  C3 as the specification states it asks for two distinct failure values. In the
  first scenario the command is echoed by the first poll and the second poll shows
  ERROR; in the second the command is echoed, the status stays EXEC and the timeout of
  0.25 s elapses. The caller gets -1 both times.
\<close>

theorem emcCommandWaitDone_error_like_timeout:
  "map_option fst
     (emcCommandWaitDone world_error_after_echo 1 (halui_connected (stat_of 0 RCS_DONE)))
     = Some (Return (-1))
   \<and> map_option fst
     (emcCommandWaitDone world_exec_forever 1
        ((halui_connected (stat_of 0 RCS_DONE))\<lparr>emcTimeout := 1 / 4\<rparr>))
     = Some (Return (-1))"
proof -
  note e = scenario_error_after_echo and x = scenario_exec_forever [where T = "1 / 4"]
  let ?x1 = "snd (updateStatus world_exec_forever
            ((halui_connected (stat_of 0 RCS_DONE))\<lparr>emcTimeout := 1 / 4\<rparr>))"
  have "emcCommandWaitDone_while world_error_after_echo double_zero
          (snd (updateStatus world_error_after_echo (halui_connected (stat_of 0 RCS_DONE))))
        = Some (Return (-1),
            snd (updateStatus world_error_after_echo
              (snd (updateStatus world_error_after_echo (halui_connected (stat_of 0 RCS_DONE))))))"
    by (rule wait_done_error_now [OF _ e(5,3)]) (simp add: e(6))
  then have r1: "map_option fst
     (emcCommandWaitDone world_error_after_echo 1 (halui_connected (stat_of 0 RCS_DONE)))
     = Some (Return (-1))"
    using wait_done_after_received(1) [OF e(1,2)] by simp
  have "emcCommandWaitDone_while world_exec_forever double_zero ?x1
        = Some (Return (-1), (poll_and_sleep world_exec_forever ^^ 3) ?x1)"
  proof (rule wait_done_timeout [OF x(5)])
    show "0 < emcTimeout ?x1" by (simp add: x(6))
    show "\<forall>i<3. status_at world_exec_forever ?x1 i \<noteq> Some RCS_DONE \<and>
                 status_at world_exec_forever ?x1 i \<noteq> Some RCS_ERROR"
      by (simp add: x(3))
    show "\<forall>i<3. dval (wait_counter double_zero i) < emcTimeout ?x1"
      unfolding x(6) using wait_counter_quarter(1) by blast
    show "\<not> dval (wait_counter double_zero 3) < emcTimeout ?x1"
      unfolding x(6) by (rule wait_counter_quarter(2))
  qed
  then have r2: "map_option fst
     (emcCommandWaitDone world_exec_forever 1
        ((halui_connected (stat_of 0 RCS_DONE))\<lparr>emcTimeout := 1 / 4\<rparr>))
     = Some (Return (-1))"
    using wait_done_after_received(1) [OF x(1,2)] by simp
  show ?thesis using r1 r2 by blast
qed

section \<open>Channel establishment\<close>

lemma sleeps_append: "sleeps (xs @ ys) = sleeps xs @ sleeps ys"
  by (induction xs rule: sleeps.induct) simp_all

lemma print_destinations_append:
  "print_destinations (xs @ ys) = print_destinations xs @ print_destinations ys"
  by (induction xs rule: print_destinations.induct) simp_all

lemma emcTaskNmlGet_frame:
  "sleeps (trace (snd (emcTaskNmlGet w s))) = sleeps (trace s)"
  "print_destinations (trace (snd (emcTaskNmlGet w s))) = print_destinations (trace s)"
  "n_err_new (snd (emcTaskNmlGet w s)) = n_err_new s"
  "emcErrorBuffer (snd (emcTaskNmlGet w s)) = emcErrorBuffer s"
  "EMC_DEBUG (snd (emcTaskNmlGet w s)) = EMC_DEBUG s"
  by (simp_all add: emcTaskNmlGet_def Let_def emit_def sleeps_append
        print_destinations_append split: prod.splits)

lemma emcErrorNmlGet_frame:
  "sleeps (trace (snd (emcErrorNmlGet w s))) = sleeps (trace s)"
  "print_destinations (trace (snd (emcErrorNmlGet w s))) = print_destinations (trace s)"
  "EMC_DEBUG (snd (emcErrorNmlGet w s)) = EMC_DEBUG s"
  by (simp_all add: emcErrorNmlGet_def Let_def emit_def sleeps_append
        print_destinations_append)

lemma retry_step_task_frame:
  "sleeps (trace ((retry_step emcTaskNmlGet w ^^ n) s)) = sleeps (trace s) @ replicate n 1"
  "print_destinations (trace ((retry_step emcTaskNmlGet w ^^ n) s)) = print_destinations (trace s)"
  "n_err_new ((retry_step emcTaskNmlGet w ^^ n) s) = n_err_new s"
  "emcErrorBuffer ((retry_step emcTaskNmlGet w ^^ n) s) = emcErrorBuffer s"
  "EMC_DEBUG ((retry_step emcTaskNmlGet w ^^ n) s) = EMC_DEBUG s"
  by (induction n)
     (simp_all add: retry_step_def esleep_def emit_def emcTaskNmlGet_frame sleeps_append
        print_destinations_append RETRY_INTERVAL_def replicate_append_same)

lemma do_while_all_fail:
  assumes "\<forall>i<Suc n. fst (get w ((retry_step get w ^^ i) s)) \<noteq> 0"
    and "real n < endv" and "endv \<le> real (Suc n)"
  shows "tryNml_do_while get w endv s = (False, (retry_step get w ^^ Suc n) s)"
  using assms
proof (induction n arbitrary: s endv)
  case 0
  obtain r s1 where g: "get w s = (r, s1)" by (cases "get w s")
  have "r \<noteq> 0" using "0.prems"(1) g by simp
  then show ?case
    using g "0.prems"(3)
    by (subst tryNml_do_while.simps) (simp add: retry_step_def RETRY_INTERVAL_def)
next
  case (Suc n)
  obtain r s1 where g: "get w s = (r, s1)" by (cases "get w s")
  have r: "r \<noteq> 0" using Suc.prems(1) g by (auto dest: spec [of _ 0])
  have pos: "endv - RETRY_INTERVAL > 0" using Suc.prems(2) by (simp add: RETRY_INTERVAL_def)
  have step: "tryNml_do_while get w endv s =
      tryNml_do_while get w (endv - RETRY_INTERVAL) (retry_step get w s)"
    using g r pos by (subst tryNml_do_while.simps) (simp add: retry_step_def)
  have "tryNml_do_while get w (endv - RETRY_INTERVAL) (retry_step get w s) =
      (False, (retry_step get w ^^ Suc n) (retry_step get w s))"
  proof (rule Suc.IH)
    show "\<forall>i<Suc n. fst (get w ((retry_step get w ^^ i) (retry_step get w s))) \<noteq> 0"
    proof (intro allI impI)
      fix i assume "i < Suc n"
      then have "fst (get w ((retry_step get w ^^ Suc i) s)) \<noteq> 0"
        using Suc.prems(1) by (auto simp del: funpow.simps)
      then show "fst (get w ((retry_step get w ^^ i) (retry_step get w s))) \<noteq> 0"
        by (simp add: funpow_swap1)
    qed
    show "real n < endv - RETRY_INTERVAL" using Suc.prems(2) by (simp add: RETRY_INTERVAL_def)
    show "endv - RETRY_INTERVAL \<le> real (Suc n)"
      using Suc.prems(3) by (simp add: RETRY_INTERVAL_def)
  qed
  then show ?case using step by (simp add: funpow_swap1)
qed

lemma do_while_first_success:
  assumes "fst (get w s) = 0"
  shows "tryNml_do_while get w endv s = (True, snd (get w s))"
  using assms by (subst tryNml_do_while.simps) (auto split: prod.splits)

lemma nml_debug_off_never:
  "EMC_DEBUG_NML w \<noteq> 0 \<Longrightarrow> \<not> nml_debug_off w s"
  by (simp add: nml_debug_off_def)

lemma diag_set_frame:
  "sleeps (trace (diag_set w d s)) = sleeps (trace s)"
  "n_err_new (diag_set w d s) = n_err_new s"
  "emcCommandBuffer (diag_set w d s) = emcCommandBuffer s"
  "emcStatusBuffer (diag_set w d s) = emcStatusBuffer s"
  "emcErrorBuffer (diag_set w d s) = emcErrorBuffer s"
  "emcStatus (diag_set w d s) = emcStatus s"
  "emcCommandSerialNumber (diag_set w d s) = emcCommandSerialNumber s"
  "saveEmcCommandSerialNumber (diag_set w d s) = saveEmcCommandSerialNumber s"
  by (simp_all add: diag_set_def set_rcs_print_destination_def emit_def sleeps_append)

lemma tryNml_task_failure:
  assumes "tryNml_do_while emcTaskNmlGet w RETRY_TIME (diag_set w RCS_PRINT_TO_NULL s)
             = (False, t)"
  shows "tryNml w s = (-1, diag_set w RCS_PRINT_TO_STDOUT t)"
  using assms by (simp add: tryNml_def diag_set_def)

text \<open>
  C5. If each of the ten calls of \<open>emcTaskNmlGet\<close> fails, \<open>tryNml\<close> returns -1 after
  exactly ten attempts, each followed by a sleep of one second (ten seconds in all); it
  makes no eleventh attempt and never tries the error channel.
\<close>

theorem tryNml_ten_attempts:
  assumes "\<forall>i<10. fst (emcTaskNmlGet w
             ((retry_step emcTaskNmlGet w ^^ i) (diag_set w RCS_PRINT_TO_NULL s))) \<noteq> 0"
  shows "tryNml w s =
           (-1, diag_set w RCS_PRINT_TO_STDOUT
                  ((retry_step emcTaskNmlGet w ^^ 10) (diag_set w RCS_PRINT_TO_NULL s)))
       \<and> sleeps (trace (snd (tryNml w s))) = sleeps (trace s) @ replicate 10 RETRY_INTERVAL
       \<and> sum_list (replicate 10 RETRY_INTERVAL) = RETRY_TIME
       \<and> n_err_new (snd (tryNml w s)) = n_err_new s"
proof -
  have "tryNml_do_while emcTaskNmlGet w RETRY_TIME (diag_set w RCS_PRINT_TO_NULL s) =
      (False, (retry_step emcTaskNmlGet w ^^ Suc 9) (diag_set w RCS_PRINT_TO_NULL s))"
    by (rule do_while_all_fail) (use assms in \<open>simp_all add: RETRY_TIME_def\<close>)
  then have l: "tryNml_do_while emcTaskNmlGet w RETRY_TIME (diag_set w RCS_PRINT_TO_NULL s) =
      (False, (retry_step emcTaskNmlGet w ^^ 10) (diag_set w RCS_PRINT_TO_NULL s))"
    by (simp add: eval_nat_numeral)
  note t = tryNml_task_failure [OF l]
  show ?thesis
    unfolding t
    by (simp add: retry_step_task_frame diag_set_frame RETRY_INTERVAL_def RETRY_TIME_def
          sum_list_replicate)
qed

lemma emcTaskNmlGet_no_command_channel:
  assumes "\<forall>k. \<not> cmd_channel_valid w k" and "\<not> emcCommandBuffer t"
  shows "fst (emcTaskNmlGet w t) = -1" and "\<not> emcCommandBuffer (snd (emcTaskNmlGet w t))"
  using assms by (simp_all add: emcTaskNmlGet_def Let_def emit_def)

lemma emcTaskNmlGet_no_status_channel:
  assumes "\<forall>k. \<not> stat_channel_valid w k" and "\<not> emcStatusBuffer t"
  shows "\<not> emcStatusBuffer (snd (emcTaskNmlGet w t))"
  using assms by (simp add: emcTaskNmlGet_def Let_def emit_def)

lemma retry_no_command_channel:
  assumes "\<forall>k. \<not> cmd_channel_valid w k" and "\<not> emcCommandBuffer s"
  shows "\<not> emcCommandBuffer ((retry_step emcTaskNmlGet w ^^ i) s)"
  using assms(2)
  by (induction i)
     (simp_all add: retry_step_def esleep_frame emcTaskNmlGet_no_command_channel(2) [OF assms(1)])

lemma retry_no_status_channel:
  assumes "\<forall>k. \<not> stat_channel_valid w k" and "\<not> emcStatusBuffer s"
  shows "\<not> emcStatusBuffer ((retry_step emcTaskNmlGet w ^^ i) s)"
  using assms(2)
  by (induction i)
     (simp_all add: retry_step_def esleep_frame emcTaskNmlGet_no_status_channel [OF assms(1)])

lemma world_down_attempts_fail:
  "fst (emcTaskNmlGet world_down
     ((retry_step emcTaskNmlGet world_down ^^ i) (diag_set world_down d halui_static))) \<noteq> 0"
proof -
  have v: "\<forall>k. \<not> cmd_channel_valid world_down k" by (simp add: world_down_def)
  have "\<not> emcCommandBuffer (diag_set world_down d halui_static)"
    by (simp add: diag_set_frame halui_static_def)
  from retry_no_command_channel [OF v this, of i]
  show ?thesis using emcTaskNmlGet_no_command_channel(1) [OF v] by simp
qed

theorem tryNml_ten_attempts_witness:
  "tryNml world_down halui_static =
     (-1, diag_set world_down RCS_PRINT_TO_STDOUT
            ((retry_step emcTaskNmlGet world_down ^^ 10)
               (diag_set world_down RCS_PRINT_TO_NULL halui_static)))
   \<and> sleeps (trace (snd (tryNml world_down halui_static))) = [1, 1, 1, 1, 1, 1, 1, 1, 1, 1]
   \<and> n_err_new (snd (tryNml world_down halui_static)) = 0"
proof -
  have h: "\<forall>i<10. fst (emcTaskNmlGet world_down
             ((retry_step emcTaskNmlGet world_down ^^ i)
                (diag_set world_down RCS_PRINT_TO_NULL halui_static))) \<noteq> 0"
    using world_down_attempts_fail by blast
  have s0: "sleeps (trace halui_static) = []" and n0: "n_err_new halui_static = 0"
    by (simp_all add: halui_static_def)
  have r: "replicate 10 RETRY_INTERVAL = [1, 1, 1, 1, 1, 1, 1, 1, 1, 1]"
    by (simp add: RETRY_INTERVAL_def eval_nat_numeral)
  from tryNml_ten_attempts [OF h] show ?thesis
    unfolding s0 n0 r append_Nil by blast
qed

section \<open>Diagnostic output while probing\<close>

lemma do_while_print_destinations:
  assumes "\<And>w s. print_destinations (trace (snd (get w s))) = print_destinations (trace s)"
  shows "print_destinations (trace (snd (tryNml_do_while get w endv s)))
           = print_destinations (trace s)"
  using assms
proof (induction get w endv s rule: tryNml_do_while.induct)
  case (1 get w endv s)
  obtain r s1 where g: "get w s = (r, s1)" by (cases "get w s")
  have p1: "print_destinations (trace s1) = print_destinations (trace s)"
    using "1.prems" [of w s] g by simp
  show ?case
  proof (cases "r = 0")
    case True
    then show ?thesis using g p1 by (subst tryNml_do_while.simps) simp
  next
    case False
    show ?thesis
    proof (cases "endv - RETRY_INTERVAL > 0")
      case True
      have "print_destinations
              (trace (snd (tryNml_do_while get w (endv - RETRY_INTERVAL)
                             (esleep RETRY_INTERVAL s1))))
            = print_destinations (trace (esleep RETRY_INTERVAL s1))"
        using "1.IH" [OF g [symmetric] False refl refl True] "1.prems" by simp
      then show ?thesis
        using g p1 False True
        by (subst tryNml_do_while.simps)
           (simp add: esleep_def emit_def print_destinations_append)
    next
      case nonpos: False
      then show ?thesis
        using g p1 False
        by (subst tryNml_do_while.simps)
           (simp add: esleep_def emit_def print_destinations_append)
    qed
  qed
qed

lemma tryNml_print_destinations:
  assumes "EMC_DEBUG_NML w \<noteq> 0"
  shows "print_destinations (trace (snd (tryNml w s))) = print_destinations (trace s)"
proof -
  note n = nml_debug_off_never [OF assms]
  obtain g1 s2 where l1: "tryNml_do_while emcTaskNmlGet w RETRY_TIME s = (g1, s2)"
    by (cases "tryNml_do_while emcTaskNmlGet w RETRY_TIME s")
  have p2: "print_destinations (trace s2) = print_destinations (trace s)"
    using do_while_print_destinations [of emcTaskNmlGet w RETRY_TIME s] l1
    by (simp add: emcTaskNmlGet_frame)
  obtain g2 s5 where l2: "tryNml_do_while emcErrorNmlGet w RETRY_TIME s2 = (g2, s5)"
    by (cases "tryNml_do_while emcErrorNmlGet w RETRY_TIME s2")
  have p5: "print_destinations (trace s5) = print_destinations (trace s2)"
    using do_while_print_destinations [of emcErrorNmlGet w RETRY_TIME s2] l2
    by (simp add: emcErrorNmlGet_frame)
  show ?thesis
    using l1 l2 p2 p5 n by (simp add: tryNml_def)
qed

text \<open>
  C7. With the globals as initialised (\<open>EMC_DEBUG = 0\<close>: NML debugging is not asked for)
  and \<open>EMC_DEBUG_NML = 0x40\<close>, the test \<open>(EMC_DEBUG & EMC_DEBUG_NML) == 0\<close> that the
  comments describe holds, but the condition as written does not, and \<open>tryNml\<close> never
  calls \<open>set_rcs_print_destination\<close>: neither when every attempt fails nor when the
  channels connect at once.
\<close>

theorem tryNml_never_suppresses_diagnostics:
  "(EMC_DEBUG halui_static AND EMC_DEBUG_NML world_down) = 0
   \<and> \<not> nml_debug_off world_down halui_static
   \<and> fst (tryNml world_down halui_static) = -1
   \<and> print_destinations (trace (snd (tryNml world_down halui_static))) = []
   \<and> print_destinations
       (trace (snd (tryNml (world_up (\<lambda>n. stat_of 0 RCS_DONE)) halui_static))) = []"
proof -
  have a: "EMC_DEBUG_NML world_down \<noteq> 0"
    and b: "EMC_DEBUG_NML (world_up (\<lambda>n. stat_of 0 RCS_DONE)) \<noteq> 0"
    by (simp_all add: world_down_def world_up_def)
  have h: "\<forall>i<10. fst (emcTaskNmlGet world_down
             ((retry_step emcTaskNmlGet world_down ^^ i)
                (diag_set world_down RCS_PRINT_TO_NULL halui_static))) \<noteq> 0"
    using world_down_attempts_fail by blast
  have "tryNml_do_while emcTaskNmlGet world_down RETRY_TIME
          (diag_set world_down RCS_PRINT_TO_NULL halui_static) =
      (False, (retry_step emcTaskNmlGet world_down ^^ Suc 9)
                (diag_set world_down RCS_PRINT_TO_NULL halui_static))"
    by (rule do_while_all_fail) (use h in \<open>simp_all add: RETRY_TIME_def\<close>)
  from tryNml_task_failure [OF this] have f: "fst (tryNml world_down halui_static) = -1"
    by simp
  have e: "print_destinations (trace halui_static) = []" by (simp add: halui_static_def)
  show ?thesis
    using f nml_debug_off_never [OF a]
    by (simp add: tryNml_print_destinations [OF a] tryNml_print_destinations [OF b] e)
       (simp add: halui_static_def)
qed

section \<open>Exit status when the channels cannot be established\<close>

lemma thisQuit_no_channels:
  assumes "\<not> emcStatusBuffer s" and "\<not> emcCommandBuffer s" and "\<not> emcErrorBuffer s"
  shows "thisQuit w s = Some (Exit 0, s)"
  using assms by (simp add: thisQuit_def and_then_def)

lemma main_startup_failure:
  assumes "tryNml w s = (r, s1)" and "r \<noteq> 0"
  shows "main_startup w s =
           and_then (thisQuit w (emit Rcs_print_error s1)) (\<lambda>u s2. Some (Exit 1, s2))"
  using assms by (simp add: main_startup_def)

lemma wait_received_never_exits:
  assumes run: "emcCommandWaitReceived_while w sn endv s = Some y"
  shows "\<forall>c. fst y \<noteq> Exit c"
proof (rule emcCommandWaitReceived_while.raw_induct
    [where P = "\<lambda>w sn endv s y. \<forall>c. fst y \<noteq> Exit c", OF _ run], goal_cases)
  case (1 loop w sn endv s y)
  then show ?case
    by (auto split: if_splits prod.splits option.splits)
qed

lemma thisQuit_outcome:
  assumes "thisQuit w s = Some (oc, s')"
  shows "oc = Exit 0 \<and> \<not> emcCommandBuffer s' \<and> \<not> emcStatusBuffer s' \<and> \<not> emcErrorBuffer s'
       \<or> oc = Null_deref"
proof (cases "emcStatusBuffer s")
  case False
  then show ?thesis
    using assms by (auto simp: thisQuit_def and_then_def emit_def Let_def split: if_splits)
next
  case True
  then obtain y where y: "emcCommandWaitReceived w (emcCommandSerialNumber s) s = Some y"
    using assms by (cases "emcCommandWaitReceived w (emcCommandSerialNumber s) s")
      (auto simp: thisQuit_def and_then_def)
  then have ne: "\<forall>c. fst y \<noteq> Exit c"
    using wait_received_never_exits by (simp add: emcCommandWaitReceived_def)
  obtain o1 s1 where p: "y = (o1, s1)" by (cases y)
  show ?thesis
  proof (cases o1)
    case (Return r)
    then show ?thesis
      using assms True y p
      by (auto simp: thisQuit_def and_then_def emit_def Let_def split: if_splits)
  next
    case (Exit c)
    then show ?thesis using ne p by simp
  next
    case Null_deref
    then show ?thesis
      using assms True y p by (auto simp: thisQuit_def and_then_def)
  qed
qed

lemma main_startup_connect_failure:
  assumes "fst (tryNml w s) \<noteq> 0" and "main_startup w s = Some (oc, s')"
  shows "oc = Exit 0 \<and> \<not> emcCommandBuffer s' \<and> \<not> emcStatusBuffer s' \<and> \<not> emcErrorBuffer s'
       \<or> oc = Null_deref"
proof -
  obtain r s1 where t: "tryNml w s = (r, s1)" by (cases "tryNml w s")
  then have r: "r \<noteq> 0" using assms(1) by simp
  note m = main_startup_failure [OF t r]
  obtain o2 s2 where q: "thisQuit w (emit Rcs_print_error s1) = Some (o2, s2)"
    using assms(2) m by (cases "thisQuit w (emit Rcs_print_error s1)") (auto simp: and_then_def)
  from thisQuit_outcome [OF q] show ?thesis
    using assms(2) m q by (auto simp: and_then_def)
qed

text \<open>
  C6. No controller is running: every construction of a channel fails. \<open>tryNml\<close>
  gives up with -1, \<open>main\<close> calls \<open>thisQuit\<close>, which finds no channel to tear down and
  ends the process with \<open>exit(0)\<close>; the \<open>exit(1)\<close> that follows the call in \<open>main\<close> is
  never reached.
\<close>

theorem main_startup_connect_failure_exits_0:
  "fst (tryNml world_down halui_static) = -1
   \<and> map_option fst (main_startup world_down halui_static) = Some (Exit 0)"
proof -
  let ?t = "(retry_step emcTaskNmlGet world_down ^^ 10)
              (diag_set world_down RCS_PRINT_TO_NULL halui_static)"
  let ?s1 = "diag_set world_down RCS_PRINT_TO_STDOUT ?t"
  have h: "\<forall>i<10. fst (emcTaskNmlGet world_down
             ((retry_step emcTaskNmlGet world_down ^^ i)
                (diag_set world_down RCS_PRINT_TO_NULL halui_static))) \<noteq> 0"
    using world_down_attempts_fail by blast
  have "tryNml_do_while emcTaskNmlGet world_down RETRY_TIME
          (diag_set world_down RCS_PRINT_TO_NULL halui_static) =
      (False, (retry_step emcTaskNmlGet world_down ^^ Suc 9)
                (diag_set world_down RCS_PRINT_TO_NULL halui_static))"
    by (rule do_while_all_fail) (use h in \<open>simp_all add: RETRY_TIME_def\<close>)
  then have "tryNml_do_while emcTaskNmlGet world_down RETRY_TIME
          (diag_set world_down RCS_PRINT_TO_NULL halui_static) = (False, ?t)"
    by (simp add: eval_nat_numeral)
  from tryNml_task_failure [OF this]
  have t: "tryNml world_down halui_static = (-1, ?s1)" .
  have c: "\<not> emcCommandBuffer ?t"
    by (rule retry_no_command_channel)
       (simp_all add: world_down_def diag_set_frame halui_static_def)
  have st: "\<not> emcStatusBuffer ?t"
    by (rule retry_no_status_channel)
       (simp_all add: world_down_def diag_set_frame halui_static_def)
  have er: "\<not> emcErrorBuffer ?t"
    by (simp add: retry_step_task_frame diag_set_frame halui_static_def)
  have q: "thisQuit world_down (emit Rcs_print_error ?s1)
             = Some (Exit 0, emit Rcs_print_error ?s1)"
    by (rule thisQuit_no_channels) (simp_all add: emit_def diag_set_frame c st er)
  have "main_startup world_down halui_static = Some (Exit 0, emit Rcs_print_error ?s1)"
    using main_startup_failure [OF t] q by (simp add: and_then_def)
  then show ?thesis using t by simp
qed

section \<open>Dispatch and the pin synchronisation\<close>

lemma wait_done_while_frame:
  assumes run: "emcCommandWaitDone_while w endv s = Some y"
  shows "wait_frame s (snd y)"
proof (rule emcCommandWaitDone_while.raw_induct
    [where P = "\<lambda>w endv s y. wait_frame s (snd y)", OF _ run], goal_cases)
  case (1 loop w endv s y)
  note IH = 1(1) and eq = 1(2)
  obtain r s1 where u: "updateStatus w s = (r, s1)" by (cases "updateStatus w s")
  have f1: "wait_frame s s1" using wait_frame_updateStatus [of s w] u by simp
  show ?case
  proof (cases "emcTimeout s \<le> 0 \<or> dval endv < emcTimeout s")
    case False
    then show ?thesis using eq by (auto simp: wait_frame_refl)
  next
    case c: True
    show ?thesis
    proof (cases "emcStatus s1")
      case None
      then show ?thesis using eq c u f1 by auto
    next
      case (Some st)
      show ?thesis
      proof (cases "status st = RCS_DONE \<or> status st = RCS_ERROR")
        case True
        then show ?thesis using eq c u Some f1 by auto
      next
        case False
        then have "loop w (double_add endv EMC_COMMAND_DELAY) (poll_and_sleep w s) = Some y"
          using eq c u Some by (simp add: poll_and_sleep_def)
        then show ?thesis using IH wait_frame_poll_and_sleep by blast
      qed
    qed
  qed
qed

lemma emcCommandWaitReceived_frame:
  "emcCommandWaitReceived w sn s = Some (oc, s') \<Longrightarrow> wait_frame s s'"
  using wait_received_frame [of w sn double_zero s "(oc, s')"] by (simp add: emcCommandWaitReceived_def)

lemma emcCommandWaitDone_frame:
  assumes "emcCommandWaitDone w sn s = Some (oc, s')"
  shows "wait_frame s s'"
proof -
  obtain o1 s1 where r: "emcCommandWaitReceived w sn s = Some (o1, s1)"
    using assms
    by (cases "emcCommandWaitReceived w sn s") (auto simp: emcCommandWaitDone_def and_then_def)
  note f1 = emcCommandWaitReceived_frame [OF r]
  show ?thesis
  proof (cases o1)
    case (Return x)
    show ?thesis
    proof (cases "x = 0")
      case True
      then have "emcCommandWaitDone_while w double_zero s1 = Some (oc, s')"
        using assms r Return by (simp add: emcCommandWaitDone_def and_then_def)
      from wait_done_while_frame [OF this] show ?thesis
        using f1 wait_frame_trans by fastforce
    next
      case False
      then show ?thesis
        using assms r Return f1 by (auto simp: emcCommandWaitDone_def and_then_def)
    qed
  next
    case (Exit c)
    then show ?thesis
      using assms r f1 by (auto simp: emcCommandWaitDone_def and_then_def)
  next
    case Null_deref
    then show ?thesis
      using assms r f1 by (auto simp: emcCommandWaitDone_def and_then_def)
  qed
qed

lemma dispatched_append: "dispatched (xs @ ys) = dispatched xs @ dispatched ys"
  by (induction xs rule: dispatched.induct) simp_all

lemma send_effect:
  assumes "send = sendMachineOn \<and> st = EMC_TASK_STATE_ON
         \<or> send = sendMachineOff \<and> st = EMC_TASK_STATE_OFF"
    and "send w s = Some (Return r, s')"
  shows "dispatches s' = dispatches s @ [(st, emcCommandSerialNumber s + 1)]"
    and "emcCommandSerialNumber s' = emcCommandSerialNumber s + 1"
    and "halui_data s' = halui_data s" and "old_halui_data s' = old_halui_data s"
proof -
  let ?s1 = "s\<lparr>emcCommandSerialNumber := emcCommandSerialNumber s + 1\<rparr>"
  let ?s2 = "emit (Cmd_write (EMC_TASK_SET_STATE st (emcCommandSerialNumber s + 1))) ?s1"
  have cb: "emcCommandBuffer s"
    using assms by (auto simp: sendMachineOn_def sendMachineOff_def Let_def split: if_splits)
  have w: "emcWaitType ?s2 = EMC_WAIT_RECEIVED \<and>
             emcCommandWaitReceived w (emcCommandSerialNumber s + 1) ?s2 = Some (Return r, s')
         \<or> emcWaitType ?s2 = EMC_WAIT_DONE \<and>
             emcCommandWaitDone w (emcCommandSerialNumber s + 1) ?s2 = Some (Return r, s')
         \<or> s' = ?s2"
    using assms cb
    by (auto simp: sendMachineOn_def sendMachineOff_def Let_def emit_def split: if_splits)
  have f: "wait_frame ?s2 s'"
    using w emcCommandWaitReceived_frame emcCommandWaitDone_frame wait_frame_refl by blast
  show "dispatches s' = dispatches s @ [(st, emcCommandSerialNumber s + 1)]"
    using f by (simp add: wait_frame_def dispatches_def emit_def cmd_writes_append
          dispatched_append)
  show "emcCommandSerialNumber s' = emcCommandSerialNumber s + 1"
    using f by (simp add: wait_frame_def emit_def)
  show "halui_data s' = halui_data s" using f by (simp add: wait_frame_def emit_def)
  show "old_halui_data s' = old_halui_data s" using f by (simp add: wait_frame_def emit_def)
qed

lemma pin_block:
  assumes "send = sendMachineOn \<and> st = EMC_TASK_STATE_ON
         \<or> send = sendMachineOff \<and> st = EMC_TASK_STATE_OFF"
    and "and_then (if v \<noteq> 0 then send w s else Some (Return 0, s))
           (\<lambda>r s1. Some (Return (), upd s1)) = Some (Return (), s')"
  shows "\<exists>s1. s' = upd s1 \<and> halui_data s1 = halui_data s \<and>
           old_halui_data s1 = old_halui_data s \<and>
           dispatches s1 = dispatches s @
             (if v \<noteq> 0 then [(st, emcCommandSerialNumber s + 1)] else []) \<and>
           emcCommandSerialNumber s1 = emcCommandSerialNumber s + (if v \<noteq> 0 then 1 else 0)"
proof (cases "v = 0")
  case True
  then show ?thesis using assms(2) by (auto simp: and_then_def)
next
  case False
  then obtain r s1 where r: "send w s = Some (Return r, s1)" and u: "s' = upd s1"
    using assms(2)
    by (auto simp: and_then_def split: option.splits prod.splits outcome.splits)
  from send_effect [OF assms(1) r] False u show ?thesis by auto
qed

lemma check_hal_changes_effect:
  assumes "check_hal_changes w s = Some (Return (), s')"
  defines "e1 \<equiv> edge (old_machine_on (old_halui_data s)) (machine_on (halui_data s))"
  defines "e2 \<equiv> edge (old_machine_off (old_halui_data s)) (machine_off (halui_data s))"
  shows "dispatches s' = dispatches s
           @ (if e1 then [(EMC_TASK_STATE_ON, emcCommandSerialNumber s + 1)] else [])
           @ (if e2 then [(EMC_TASK_STATE_OFF,
                           emcCommandSerialNumber s + (if e1 then 1 else 0) + 1)] else [])"
    and "emcCommandSerialNumber s' =
           emcCommandSerialNumber s + (if e1 then 1 else 0) + (if e2 then 1 else 0)"
    and "old_machine_on (old_halui_data s') = machine_on (halui_data s)"
    and "old_machine_off (old_halui_data s') = machine_off (halui_data s)"
    and "halui_data s' = halui_data s"
proof -
  define upd1 :: "halui \<Rightarrow> halui" where "upd1 = (\<lambda>s1. s1\<lparr>old_halui_data :=
      (old_halui_data s1)\<lparr>old_machine_on := machine_on (halui_data s1)\<rparr>\<rparr>)"
  define upd2 :: "halui \<Rightarrow> halui" where "upd2 = (\<lambda>s3. s3\<lparr>old_halui_data :=
      (old_halui_data s3)\<lparr>old_machine_off := machine_off (halui_data s3)\<rparr>\<rparr>)"
  define b1 where "b1 =
     (if machine_on (halui_data s) \<noteq> old_machine_on (old_halui_data s) then
         and_then (if machine_on (halui_data s) \<noteq> 0 then sendMachineOn w s
                   else Some (Return 0, s))
           (\<lambda>r s1. Some (Return (), upd1 s1))
       else Some (Return (), s))"
  define b2 where "b2 = (\<lambda>s2.
        if machine_off (halui_data s2) \<noteq> old_machine_off (old_halui_data s2) then
          and_then (if machine_off (halui_data s2) \<noteq> 0 then sendMachineOff w s2
                    else Some (Return 0, s2))
            (\<lambda>r s3. Some (Return (), upd2 s3))
        else Some (Return (), s2))"
  have c: "check_hal_changes w s = and_then b1 (\<lambda>u s2. b2 s2)"
    unfolding check_hal_changes_def b1_def b2_def upd1_def upd2_def by (rule refl)
  obtain s2 where r1: "b1 = Some (Return (), s2)" and r2: "b2 s2 = Some (Return (), s')"
    using assms(1) c
    by (auto simp: and_then_def split: option.splits prod.splits outcome.splits)
  have p1: "halui_data s2 = halui_data s \<and>
      old_machine_on (old_halui_data s2) = machine_on (halui_data s) \<and>
      old_machine_off (old_halui_data s2) = old_machine_off (old_halui_data s) \<and>
      dispatches s2 = dispatches s
           @ (if e1 then [(EMC_TASK_STATE_ON, emcCommandSerialNumber s + 1)] else []) \<and>
      emcCommandSerialNumber s2 = emcCommandSerialNumber s + (if e1 then 1 else 0)"
  proof (cases "machine_on (halui_data s) \<noteq> old_machine_on (old_halui_data s)")
    case False
    then show ?thesis using r1 by (auto simp: b1_def e1_def edge_def)
  next
    case True
    then have "and_then (if machine_on (halui_data s) \<noteq> 0 then sendMachineOn w s
                   else Some (Return 0, s))
           (\<lambda>r s1. Some (Return (), upd1 s1)) = Some (Return (), s2)"
      using r1 by (simp add: b1_def)
    from pin_block [where send = sendMachineOn and st = EMC_TASK_STATE_ON and upd = upd1
        and v = "machine_on (halui_data s)" and w = w and s = s and s' = s2] this True
    show ?thesis
      by (auto simp: upd1_def dispatches_def e1_def edge_def)
  qed
  have p2: "halui_data s' = halui_data s2 \<and>
      old_machine_off (old_halui_data s') = machine_off (halui_data s2) \<and>
      old_machine_on (old_halui_data s') = old_machine_on (old_halui_data s2) \<and>
      dispatches s' = dispatches s2
           @ (if e2 then [(EMC_TASK_STATE_OFF, emcCommandSerialNumber s2 + 1)] else []) \<and>
      emcCommandSerialNumber s' = emcCommandSerialNumber s2 + (if e2 then 1 else 0)"
  proof (cases "machine_off (halui_data s2) \<noteq> old_machine_off (old_halui_data s2)")
    case False
    then show ?thesis using r2 p1 by (auto simp: b2_def e2_def edge_def)
  next
    case True
    then have "and_then (if machine_off (halui_data s2) \<noteq> 0 then sendMachineOff w s2
                    else Some (Return 0, s2))
            (\<lambda>r s3. Some (Return (), upd2 s3)) = Some (Return (), s')"
      using r2 by (simp add: b2_def)
    from pin_block [where send = sendMachineOff and st = EMC_TASK_STATE_OFF and upd = upd2
        and v = "machine_off (halui_data s2)" and w = w and s = s2 and s' = s'] this True p1
    show ?thesis
      by (auto simp: upd2_def dispatches_def e2_def edge_def)
  qed
  show "dispatches s' = dispatches s
           @ (if e1 then [(EMC_TASK_STATE_ON, emcCommandSerialNumber s + 1)] else [])
           @ (if e2 then [(EMC_TASK_STATE_OFF,
                           emcCommandSerialNumber s + (if e1 then 1 else 0) + 1)] else [])"
    using p1 p2 by simp
  show "emcCommandSerialNumber s' =
           emcCommandSerialNumber s + (if e1 then 1 else 0) + (if e2 then 1 else 0)"
    using p1 p2 by simp
  show "old_machine_on (old_halui_data s') = machine_on (halui_data s)" using p1 p2 by simp
  show "old_machine_off (old_halui_data s') = machine_off (halui_data s)" using p1 p2 by simp
  show "halui_data s' = halui_data s" using p1 p2 by simp
qed

lemma main_loop_body_effect:
  assumes "main_loop_body w s = Some (Return (), s')"
  defines "e1 \<equiv> edge (old_machine_on (old_halui_data s)) (machine_on (halui_data s))"
  defines "e2 \<equiv> edge (old_machine_off (old_halui_data s)) (machine_off (halui_data s))"
  shows "dispatches s' = dispatches s
           @ (if e1 then [(EMC_TASK_STATE_ON, emcCommandSerialNumber s + 1)] else [])
           @ (if e2 then [(EMC_TASK_STATE_OFF,
                           emcCommandSerialNumber s + (if e1 then 1 else 0) + 1)] else [])"
    and "emcCommandSerialNumber s' =
           emcCommandSerialNumber s + (if e1 then 1 else 0) + (if e2 then 1 else 0)"
    and "old_machine_on (old_halui_data s') = machine_on (halui_data s)"
    and "old_machine_off (old_halui_data s') = machine_off (halui_data s)"
proof -
  obtain s1 where c: "check_hal_changes w s = Some (Return (), s1)"
    and m: "and_then (Some (modify_hal_pins s1))
        (\<lambda>u s2. Some (Return (), snd (updateStatus w (esleep (EMC_IO_CYCLE_TIME w) s2))))
        = Some (Return (), s')"
    using assms(1)
    by (auto simp: main_loop_body_def and_then_def [of "check_hal_changes w s"]
          split: option.splits prod.splits outcome.splits)
  obtain s2 where m2: "modify_hal_pins s1 = (Return (), s2)"
    and u: "s' = snd (updateStatus w (esleep (EMC_IO_CYCLE_TIME w) s2))"
    using m by (auto simp: and_then_def split: prod.splits outcome.splits)
  have f2: "trace s2 = trace s1 \<and> emcCommandSerialNumber s2 = emcCommandSerialNumber s1 \<and>
            old_halui_data s2 = old_halui_data s1"
    using m2 by (auto simp: modify_hal_pins_def split: option.splits if_splits)
  have f3: "dispatches s' = dispatches s1 \<and>
            emcCommandSerialNumber s' = emcCommandSerialNumber s1 \<and>
            old_halui_data s' = old_halui_data s1"
    using f2 u
    by (simp add: updateStatus_frame esleep_frame dispatches_def cmd_writes_append)
  note e = check_hal_changes_effect [OF c]
  show "dispatches s' = dispatches s
           @ (if e1 then [(EMC_TASK_STATE_ON, emcCommandSerialNumber s + 1)] else [])
           @ (if e2 then [(EMC_TASK_STATE_OFF,
                           emcCommandSerialNumber s + (if e1 then 1 else 0) + 1)] else [])"
    using e(1) f3 by (simp add: e1_def e2_def)
  show "emcCommandSerialNumber s' =
           emcCommandSerialNumber s + (if e1 then 1 else 0) + (if e2 then 1 else 0)"
    using e(2) f3 by (simp add: e1_def e2_def)
  show "old_machine_on (old_halui_data s') = machine_on (halui_data s)" using e(3) f3 by simp
  show "old_machine_off (old_halui_data s') = machine_off (halui_data s)" using e(4) f3 by simp
qed

lemma serials_from_add:
  "serials_from c (m + n) = serials_from c m @ serials_from (c + of_nat m) n"
  by (induction m arbitrary: c) (simp_all add: add.assoc)

lemma sint_succ:
  fixes c :: c_int
  assumes "sint c + 1 < 2 ^ 31"
  shows "sint (c + 1) = sint c + 1"
proof -
  have "- (2 ^ 31) \<le> sint c" using sint_ge [of c] by simp
  then have "signed_take_bit 31 (sint c + 1) = sint c + 1"
    using assms by (intro signed_take_bit_int_eq_self) simp_all
  then show ?thesis by (simp add: sint_word_ariths)
qed

lemma serials_from_increasing:
  "sint c + int n < 2 ^ 31 \<Longrightarrow>
     sorted_wrt (<) (map sint (serials_from c n)) \<and>
     (\<forall>x \<in> set (serials_from c n). sint c < sint x)"
proof (induction n arbitrary: c)
  case 0
  then show ?case by simp
next
  case (Suc n)
  have s1: "sint (c + 1) = sint c + 1" using Suc.prems by (intro sint_succ) simp
  have "sint (c + 1) + int n < 2 ^ 31" using Suc.prems s1 by simp
  from Suc.IH [OF this] show ?case using s1 by auto
qed

lemma hal_write_inputs_frame:
  "dispatches (hal_write_inputs p s) = dispatches s"
  "emcCommandSerialNumber (hal_write_inputs p s) = emcCommandSerialNumber s"
  "old_halui_data (hal_write_inputs p s) = old_halui_data s"
  "machine_on (halui_data (hal_write_inputs p s)) = fst p"
  "machine_off (halui_data (hal_write_inputs p s)) = snd p"
  by (simp_all add: hal_write_inputs_def dispatches_def)

lemma main_loop_cycles_effect:
  assumes "main_loop_cycles w ps s = Some (Return (), s')"
  shows "map snd (dispatches s') =
           map snd (dispatches s) @ serials_from (emcCommandSerialNumber s) (triggers s ps)
       \<and> emcCommandSerialNumber s' = emcCommandSerialNumber s + of_nat (triggers s ps)
       \<and> dispatch_count EMC_TASK_STATE_ON s' = dispatch_count EMC_TASK_STATE_ON s
           + rising_edges (old_machine_on (old_halui_data s)) (map fst ps)
       \<and> dispatch_count EMC_TASK_STATE_OFF s' = dispatch_count EMC_TASK_STATE_OFF s
           + rising_edges (old_machine_off (old_halui_data s)) (map snd ps)
       \<and> old_machine_on (old_halui_data s') = last (old_machine_on (old_halui_data s) # map fst ps)
       \<and> old_machine_off (old_halui_data s') =
           last (old_machine_off (old_halui_data s) # map snd ps)"
  using assms
proof (induction ps arbitrary: s)
  case Nil
  then show ?case by (simp add: triggers_def)
next
  case (Cons p ps)
  let ?t = "hal_write_inputs p s"
  obtain s1 where b: "main_loop_body w ?t = Some (Return (), s1)"
    and r: "main_loop_cycles w ps s1 = Some (Return (), s')"
    using Cons.prems
    by (auto simp: and_then_def split: option.splits prod.splits outcome.splits)
  define e1 where "e1 = edge (old_machine_on (old_halui_data s)) (fst p)"
  define e2 where "e2 = edge (old_machine_off (old_halui_data s)) (snd p)"
  define k :: nat where "k = (if e1 then 1 else 0) + (if e2 then 1 else 0)"
  note e = main_loop_body_effect [OF b, unfolded hal_write_inputs_frame,
      folded e1_def e2_def]
  have d1: "dispatches s1 = dispatches s
           @ (if e1 then [(EMC_TASK_STATE_ON, emcCommandSerialNumber s + 1)] else [])
           @ (if e2 then [(EMC_TASK_STATE_OFF,
                           emcCommandSerialNumber s + (if e1 then 1 else 0) + 1)] else [])"
    by (rule e(1))
  have sn1: "emcCommandSerialNumber s1 = emcCommandSerialNumber s + of_nat k"
    using e(2) by (simp add: k_def)
  have ser1: "map snd (dispatches s1) =
      map snd (dispatches s) @ serials_from (emcCommandSerialNumber s) k"
    unfolding d1 by (simp add: k_def eval_nat_numeral)
  have on1: "dispatch_count EMC_TASK_STATE_ON s1 =
      dispatch_count EMC_TASK_STATE_ON s + (if e1 then 1 else 0)"
    and off1: "dispatch_count EMC_TASK_STATE_OFF s1 =
      dispatch_count EMC_TASK_STATE_OFF s + (if e2 then 1 else 0)"
    unfolding dispatch_count_def d1 by simp_all
  have o1: "old_machine_on (old_halui_data s1) = fst p"
    and o2: "old_machine_off (old_halui_data s1) = snd p"
    using e(3,4) by simp_all
  have tr: "triggers s (p # ps) = k + triggers s1 ps"
    by (simp add: triggers_def k_def e1_def e2_def o1 o2)
  note ih = Cons.IH [OF r]
  have "map snd (dispatches s') =
      map snd (dispatches s) @ serials_from (emcCommandSerialNumber s) (triggers s (p # ps))"
    using ih ser1 sn1 by (simp add: tr serials_from_add)
  moreover have "emcCommandSerialNumber s' =
      emcCommandSerialNumber s + of_nat (triggers s (p # ps))"
    using ih sn1 by (simp add: tr)
  moreover have "dispatch_count EMC_TASK_STATE_ON s' = dispatch_count EMC_TASK_STATE_ON s
           + rising_edges (old_machine_on (old_halui_data s)) (map fst (p # ps))"
    using ih on1 by (simp add: o1 e1_def)
  moreover have "dispatch_count EMC_TASK_STATE_OFF s' = dispatch_count EMC_TASK_STATE_OFF s
           + rising_edges (old_machine_off (old_halui_data s)) (map snd (p # ps))"
    using ih off1 by (simp add: o2 e2_def)
  moreover have "old_machine_on (old_halui_data s') =
      last (old_machine_on (old_halui_data s) # map fst (p # ps))"
    using ih by (simp add: o1)
  moreover have "old_machine_off (old_halui_data s') =
      last (old_machine_off (old_halui_data s) # map snd (p # ps))"
    using ih by (simp add: o2)
  ultimately show ?case by blast
qed

section \<open>The passes of the main loop return\<close>

lemma comes_back_and_then:
  assumes "comes_back must P m" and "\<And>x s. P s \<Longrightarrow> comes_back must Q (f x s)"
  shows "comes_back must Q (and_then m f)"
proof (cases m)
  case None
  then show ?thesis using assms(1) by (simp add: comes_back_def and_then_def)
next
  case (Some y)
  obtain oc s' where y: "y = (oc, s')" by (cases y)
  show ?thesis
  proof (cases oc)
    case (Return x)
    then have "P s'" using assms(1) Some y by (simp add: comes_back_def)
    then show ?thesis using assms(2) [of s' x] Some y Return by (simp add: and_then_def)
  next
    case (Exit c)
    then show ?thesis using assms(1) Some y by (simp add: comes_back_def)
  next
    case Null_deref
    then show ?thesis using assms(1) Some y by (simp add: comes_back_def)
  qed
qed

lemma wait_received_comes_back:
  assumes "emcStatus s \<noteq> None"
    and "must \<longrightarrow> 0 < emcTimeout s \<and> \<not> dval (wait_counter double_zero n) < emcTimeout s"
  shows "comes_back must (wait_frame s) (emcCommandWaitReceived w sn s)"
proof (cases "emcCommandWaitReceived_while w sn double_zero s")
  case None
  have "\<not> must"
  proof
    assume must
    then have "\<exists>y. emcCommandWaitReceived_while w sn double_zero s = Some y"
      using assms(2) wait_received_returns [of s double_zero n w sn] by blast
    then show False using None by simp
  qed
  then show ?thesis using None by (simp add: comes_back_def emcCommandWaitReceived_def)
next
  case (Some y)
  obtain r where "fst y = Return r" using wait_received_value [OF Some] assms(1) by blast
  moreover have "wait_frame s (snd y)" by (rule wait_received_frame [OF Some])
  ultimately show ?thesis
    using Some by (cases y) (simp add: comes_back_def emcCommandWaitReceived_def)
qed

lemma wait_done_while_comes_back:
  assumes "emcStatus s \<noteq> None"
    and "must \<longrightarrow> 0 < emcTimeout s \<and> \<not> dval (wait_counter double_zero n) < emcTimeout s"
  shows "comes_back must (wait_frame s) (emcCommandWaitDone_while w double_zero s)"
proof (cases "emcCommandWaitDone_while w double_zero s")
  case None
  have "\<not> must"
  proof
    assume must
    then have "\<exists>y. emcCommandWaitDone_while w double_zero s = Some y"
      using assms(2) wait_done_returns [of s double_zero n w] by blast
    then show False using None by simp
  qed
  then show ?thesis using None by (simp add: comes_back_def)
next
  case (Some y)
  obtain r where "fst y = Return r" using wait_done_value [OF Some] assms(1) by blast
  moreover have "wait_frame s (snd y)" by (rule wait_done_while_frame [OF Some])
  ultimately show ?thesis
    using Some by (cases y) (simp add: comes_back_def)
qed

lemma wait_done_comes_back:
  assumes "emcStatus s \<noteq> None"
    and "must \<longrightarrow> 0 < emcTimeout s \<and> \<not> dval (wait_counter double_zero n) < emcTimeout s"
  shows "comes_back must (wait_frame s) (emcCommandWaitDone w sn s)"
  unfolding emcCommandWaitDone_def
proof (rule comes_back_and_then [OF wait_received_comes_back [OF assms]])
  fix r :: int and s1
  assume f: "wait_frame s s1"
  show "comes_back must (wait_frame s)
          (if r \<noteq> 0 then Some (Return (- 1), s1) else emcCommandWaitDone_while w double_zero s1)"
  proof (cases "r = 0")
    case False
    then show ?thesis using f by (simp add: comes_back_def)
  next
    case True
    have ns1: "emcStatus s1 \<noteq> None" using f assms(1) by (simp add: wait_frame_def)
    have b1: "must \<longrightarrow> 0 < emcTimeout s1 \<and>
        \<not> dval (wait_counter double_zero n) < emcTimeout s1"
      using f assms(2) by (simp add: wait_frame_def)
    have "comes_back must (wait_frame s1) (emcCommandWaitDone_while w double_zero s1)"
      by (rule wait_done_while_comes_back [OF ns1 b1])
    then have "comes_back must (wait_frame s) (emcCommandWaitDone_while w double_zero s1)"
      using f wait_frame_trans [of s s1]
      by (auto simp: comes_back_def split: option.splits outcome.splits)
    then show ?thesis using True by simp
  qed
qed

lemma loop_inv_wait_frame:
  "wait_frame s s' \<Longrightarrow> loop_inv must n s \<Longrightarrow> loop_inv must n s'"
  by (simp add: wait_frame_def loop_inv_def)

lemma send_comes_back:
  assumes "send = sendMachineOn \<and> st = EMC_TASK_STATE_ON
         \<or> send = sendMachineOff \<and> st = EMC_TASK_STATE_OFF"
    and "loop_inv must n s"
  shows "comes_back must (loop_inv must n) (send w s)"
proof -
  let ?s1 = "s\<lparr>emcCommandSerialNumber := emcCommandSerialNumber s + 1\<rparr>"
  let ?s2 = "emit (Cmd_write (EMC_TASK_SET_STATE st (emcCommandSerialNumber s + 1))) ?s1"
  have i2: "loop_inv must n ?s2" using assms(2) by (simp add: loop_inv_def emit_def)
  have ns2: "emcStatus ?s2 \<noteq> None" using i2 by (simp add: loop_inv_def)
  have eq: "send w s =
     (if emcWaitType ?s2 = EMC_WAIT_RECEIVED
      then emcCommandWaitReceived w (emcCommandSerialNumber s + 1) ?s2
      else if emcWaitType ?s2 = EMC_WAIT_DONE
      then emcCommandWaitDone w (emcCommandSerialNumber s + 1) ?s2
      else Some (Return 0, ?s2))"
    using assms
    by (auto simp: sendMachineOn_def sendMachineOff_def Let_def emit_def loop_inv_def)
  show ?thesis
  proof (cases "emcWaitType ?s2")
    case EMC_WAIT_NONE
    then show ?thesis using eq i2 by (simp add: comes_back_def)
  next
    case EMC_WAIT_RECEIVED
    then have b: "must \<longrightarrow> 0 < emcTimeout ?s2 \<and>
        \<not> dval (wait_counter double_zero n) < emcTimeout ?s2"
      using i2 by (auto simp: loop_inv_def)
    have "comes_back must (wait_frame ?s2)
            (emcCommandWaitReceived w (emcCommandSerialNumber s + 1) ?s2)"
      by (rule wait_received_comes_back [OF ns2 b])
    then have "comes_back must (loop_inv must n)
            (emcCommandWaitReceived w (emcCommandSerialNumber s + 1) ?s2)"
      using loop_inv_wait_frame [OF _ i2]
      by (auto simp: comes_back_def split: option.splits outcome.splits)
    then show ?thesis using eq EMC_WAIT_RECEIVED by simp
  next
    case EMC_WAIT_DONE
    then have b: "must \<longrightarrow> 0 < emcTimeout ?s2 \<and>
        \<not> dval (wait_counter double_zero n) < emcTimeout ?s2"
      using i2 by (auto simp: loop_inv_def)
    have "comes_back must (wait_frame ?s2)
            (emcCommandWaitDone w (emcCommandSerialNumber s + 1) ?s2)"
      by (rule wait_done_comes_back [OF ns2 b])
    then have "comes_back must (loop_inv must n)
            (emcCommandWaitDone w (emcCommandSerialNumber s + 1) ?s2)"
      using loop_inv_wait_frame [OF _ i2]
      by (auto simp: comes_back_def split: option.splits outcome.splits)
    then show ?thesis using eq EMC_WAIT_DONE by simp
  qed
qed

lemma pin_block_comes_back:
  assumes "send = sendMachineOn \<and> st = EMC_TASK_STATE_ON
         \<or> send = sendMachineOff \<and> st = EMC_TASK_STATE_OFF"
    and "loop_inv must n s"
    and "\<And>s1. loop_inv must n s1 \<Longrightarrow> loop_inv must n (upd s1)"
  shows "comes_back must (loop_inv must n)
           (and_then (if v \<noteq> 0 then send w s else Some (Return 0, s))
              (\<lambda>r s1. Some (Return (), upd s1)))"
proof (rule comes_back_and_then [where P = "loop_inv must n"])
  show "comes_back must (loop_inv must n) (if v \<noteq> 0 then send w s else Some (Return 0, s))"
    using send_comes_back [OF assms(1,2)] assms(2) by (simp add: comes_back_def)
  show "comes_back must (loop_inv must n) (Some (Return (), upd s1))"
    if "loop_inv must n s1" for r :: int and s1
    using assms(3) [OF that] by (simp add: comes_back_def)
qed

lemma check_hal_changes_comes_back:
  assumes "loop_inv must n s"
  shows "comes_back must (loop_inv must n) (check_hal_changes w s)"
  unfolding check_hal_changes_def
proof (rule comes_back_and_then [where P = "loop_inv must n"])
  show "comes_back must (loop_inv must n)
     (if machine_on (halui_data s) \<noteq> old_machine_on (old_halui_data s) then
         and_then (if machine_on (halui_data s) \<noteq> 0 then sendMachineOn w s
                   else Some (Return 0, s))
           (\<lambda>r s1. Some (Return (),
              s1\<lparr>old_halui_data :=
                   (old_halui_data s1)\<lparr>old_machine_on := machine_on (halui_data s1)\<rparr>\<rparr>))
       else Some (Return (), s))"
  proof (cases "machine_on (halui_data s) \<noteq> old_machine_on (old_halui_data s)")
    case False
    then show ?thesis using assms by (simp add: comes_back_def)
  next
    case True
    have "comes_back must (loop_inv must n)
       (and_then (if machine_on (halui_data s) \<noteq> 0 then sendMachineOn w s
                   else Some (Return 0, s))
           (\<lambda>r s1. Some (Return (),
              s1\<lparr>old_halui_data :=
                   (old_halui_data s1)\<lparr>old_machine_on := machine_on (halui_data s1)\<rparr>\<rparr>)))"
      by (rule pin_block_comes_back [where st = EMC_TASK_STATE_ON, OF _ assms])
         (simp_all add: loop_inv_def)
    then show ?thesis using True by simp
  qed
next
  fix u :: unit and s2
  assume i2: "loop_inv must n s2"
  show "comes_back must (loop_inv must n)
     (if machine_off (halui_data s2) \<noteq> old_machine_off (old_halui_data s2) then
          and_then (if machine_off (halui_data s2) \<noteq> 0 then sendMachineOff w s2
                    else Some (Return 0, s2))
            (\<lambda>r s3. Some (Return (),
               s3\<lparr>old_halui_data :=
                    (old_halui_data s3)\<lparr>old_machine_off := machine_off (halui_data s3)\<rparr>\<rparr>))
        else Some (Return (), s2))"
  proof (cases "machine_off (halui_data s2) \<noteq> old_machine_off (old_halui_data s2)")
    case False
    then show ?thesis using i2 by (simp add: comes_back_def)
  next
    case True
    have "comes_back must (loop_inv must n)
       (and_then (if machine_off (halui_data s2) \<noteq> 0 then sendMachineOff w s2
                    else Some (Return 0, s2))
            (\<lambda>r s3. Some (Return (),
               s3\<lparr>old_halui_data :=
                    (old_halui_data s3)\<lparr>old_machine_off := machine_off (halui_data s3)\<rparr>\<rparr>)))"
      by (rule pin_block_comes_back [where st = EMC_TASK_STATE_OFF, OF _ i2])
         (simp_all add: loop_inv_def)
    then show ?thesis using True by simp
  qed
qed

lemma main_loop_body_comes_back:
  assumes "loop_inv must n s"
  shows "comes_back must (loop_inv must n) (main_loop_body w s)"
  unfolding main_loop_body_def
proof (rule comes_back_and_then [OF check_hal_changes_comes_back [OF assms]])
  fix u :: unit and s1
  assume i1: "loop_inv must n s1"
  then obtain st where st: "emcStatus s1 = Some st" by (auto simp: loop_inv_def)
  define s2 where "s2 = snd (modify_hal_pins s1)"
  have m: "modify_hal_pins s1 = (Return (), s2)"
    unfolding s2_def using st by (simp add: modify_hal_pins_def)
  have i2: "loop_inv must n s2"
    using i1 st unfolding s2_def by (simp add: modify_hal_pins_def loop_inv_def)
  have "loop_inv must n (snd (updateStatus w (esleep (EMC_IO_CYCLE_TIME w) s2)))"
    using i2 by (simp add: loop_inv_def updateStatus_frame esleep_frame)
  then show "comes_back must (loop_inv must n)
      (and_then (Some (modify_hal_pins s1))
        (\<lambda>u s2. Some (Return (), snd (updateStatus w (esleep (EMC_IO_CYCLE_TIME w) s2)))))"
    unfolding m by (simp add: and_then_def comes_back_def)
qed

lemma main_loop_cycles_comes_back:
  "loop_inv must n s \<Longrightarrow> comes_back must (loop_inv must n) (main_loop_cycles w ps s)"
proof (induction ps arbitrary: s)
  case Nil
  then show ?case by (simp add: comes_back_def)
next
  case (Cons p ps)
  have "loop_inv must n (hal_write_inputs p s)"
    using Cons.prems by (simp add: loop_inv_def hal_write_inputs_def)
  from main_loop_body_comes_back [OF this] show ?case
    unfolding main_loop_cycles.simps
    by (rule comes_back_and_then) (rule Cons.IH)
qed

lemma rising_edges_held: "v \<noteq> 0 \<Longrightarrow> rising_edges v (replicate n v) = 0"
  by (induction n) (simp_all add: edge_def)

lemmas run_defs = main_loop_body_def check_hal_changes_def and_then_def sendMachineOn_def
  sendMachineOff_def emcCommandWaitDone_def emcCommandWaitReceived_def modify_hal_pins_def
  hal_write_inputs_def updateStatus_def esleep_def emit_def Let_def
  emcCommandWaitReceived_while.simps emcCommandWaitDone_while.simps

lemmas scenario_defs = world_up_def halui_connected_def halui_static_def stat_of_def

text \<open>
  C1. (1) Over any number of passes of the main loop that return, the number of
  \<open>EMC_TASK_SET_STATE\<close> commands dispatched for a pin grows by exactly the number of
  rising edges among the samples of that pin, and the shadow ends up equal to the last
  sample; what the dispatches returned plays no part. (2) The passes do return: started
  with a command channel and a status pointer, whatever the samples and whatever the
  controller does, the run returns if the wait type is \<open>EMC_WAIT_NONE\<close> or the timeout is
  positive, the counter of the wait loops reaching it after some number \<open>n\<close> of passes.
  (3) With no such bound a run still ends in no other way than by returning: what is left
  is a dispatch whose wait never ends. (4) A 0 to 1 step is one rising edge, holding 1
  for \<open>N\<close> more passes adds none, and 0, 1, 0, 1 has two.
\<close>

theorem rising_edge_dispatches_once:
  "(main_loop_cycles w ps s = Some (Return (), s') \<longrightarrow>
         dispatch_count EMC_TASK_STATE_ON s' = dispatch_count EMC_TASK_STATE_ON s
           + rising_edges (old_machine_on (old_halui_data s)) (map fst ps)
       \<and> dispatch_count EMC_TASK_STATE_OFF s' = dispatch_count EMC_TASK_STATE_OFF s
           + rising_edges (old_machine_off (old_halui_data s)) (map snd ps)
       \<and> old_machine_on (old_halui_data s') = last (old_machine_on (old_halui_data s) # map fst ps)
       \<and> old_machine_off (old_halui_data s') =
           last (old_machine_off (old_halui_data s) # map snd ps))
   \<and> (emcCommandBuffer s \<and> emcStatus s \<noteq> None \<and>
        (emcWaitType s = EMC_WAIT_NONE \<or>
         0 < emcTimeout s \<and> \<not> dval (wait_counter double_zero n) < emcTimeout s) \<longrightarrow>
        (\<exists>s''. main_loop_cycles w ps s = Some (Return (), s'')))
   \<and> (emcCommandBuffer s \<and> emcStatus s \<noteq> None \<and> main_loop_cycles w ps s = Some (oc, s') \<longrightarrow>
        oc = Return ())
   \<and> rising_edges 0 [1] = 1
   \<and> rising_edges 1 (replicate N 1) = 0
   \<and> rising_edges 0 [1, 0, 1] = 2"
proof (intro conjI impI)
  assume r: "main_loop_cycles w ps s = Some (Return (), s')"
  note e = main_loop_cycles_effect [OF r]
  show "dispatch_count EMC_TASK_STATE_ON s' = dispatch_count EMC_TASK_STATE_ON s
           + rising_edges (old_machine_on (old_halui_data s)) (map fst ps)"
    using e by blast
  show "dispatch_count EMC_TASK_STATE_OFF s' = dispatch_count EMC_TASK_STATE_OFF s
           + rising_edges (old_machine_off (old_halui_data s)) (map snd ps)"
    using e by blast
  show "old_machine_on (old_halui_data s') = last (old_machine_on (old_halui_data s) # map fst ps)"
    using e by blast
  show "old_machine_off (old_halui_data s') =
           last (old_machine_off (old_halui_data s) # map snd ps)"
    using e by blast
next
  assume "emcCommandBuffer s \<and> emcStatus s \<noteq> None \<and>
        (emcWaitType s = EMC_WAIT_NONE \<or>
         0 < emcTimeout s \<and> \<not> dval (wait_counter double_zero n) < emcTimeout s)"
  then have "loop_inv True n s" by (simp add: loop_inv_def)
  then have c: "comes_back True (loop_inv True n) (main_loop_cycles w ps s)"
    by (rule main_loop_cycles_comes_back)
  then obtain oc' s1 where y: "main_loop_cycles w ps s = Some (oc', s1)"
    by (cases "main_loop_cycles w ps s") (auto simp: comes_back_def)
  then have "oc' = Return ()" using c by (cases oc') (simp_all add: comes_back_def)
  then show "\<exists>s''. main_loop_cycles w ps s = Some (Return (), s'')"
    using y by blast
next
  assume h: "emcCommandBuffer s \<and> emcStatus s \<noteq> None \<and>
        main_loop_cycles w ps s = Some (oc, s')"
  then have "loop_inv False n s" by (simp add: loop_inv_def)
  then have "comes_back False (loop_inv False n) (main_loop_cycles w ps s)"
    by (rule main_loop_cycles_comes_back)
  then show "oc = Return ()" using h by (cases oc) (simp_all add: comes_back_def)
next
  show "rising_edges 0 [1] = 1" by (simp add: edge_def)
  show "rising_edges 1 (replicate N 1) = 0" using rising_edges_held [of 1 N] by simp
  show "rising_edges 0 [1, 0, 1] = 2" by (simp add: edge_def)
qed

text \<open>
  Two runs that raise both pins. With a timeout of 1.0 and every poll failing, each
  dispatch times out and the run returns all the same: two rising edges of the pin for
  machine-on, one of the pin for machine-off. With the timeout off, the controller
  answering the first command with ERROR and the next two with DONE: the first dispatch
  returns -1, and the pin held at 1 in the second pass does not dispatch again.
\<close>

theorem rising_edge_dispatches_once_witness:
  "(\<exists>s'. main_loop_cycles world_polls_fail [(1, 0), (1, 1), (0, 1), (1, 0)]
           ((halui_connected (stat_of 0 RCS_DONE))\<lparr>emcTimeout := 1\<rparr>) = Some (Return (), s')
       \<and> dispatch_count EMC_TASK_STATE_ON s' = 2
       \<and> dispatch_count EMC_TASK_STATE_OFF s' = 1
       \<and> old_machine_on (old_halui_data s') = 1
       \<and> old_machine_off (old_halui_data s') = 0)
   \<and> (\<exists>s'. main_loop_cycles world_three_commands [(1, 0), (1, 0), (0, 1), (1, 1)]
           (halui_connected (stat_of 0 RCS_DONE)) = Some (Return (), s')
       \<and> dispatch_count EMC_TASK_STATE_ON s' = 2
       \<and> dispatch_count EMC_TASK_STATE_OFF s' = 1
       \<and> old_machine_on (old_halui_data s') = 1
       \<and> old_machine_off (old_halui_data s') = 1)
   \<and> map_option fst
        (sendMachineOn world_three_commands
           (hal_write_inputs (1, 0) (halui_connected (stat_of 0 RCS_DONE))))
       = Some (Return (-1))"
proof -
  let ?v = "world_polls_fail"
  let ?t = "(halui_connected (stat_of 0 RCS_DONE))\<lparr>emcTimeout := 1\<rparr>"
  let ?qs = "[(1, 0), (1, 1), (0, 1), (1 :: hal_bit_t, 0 :: hal_bit_t)]"
  let ?w = "world_three_commands"
  let ?s = "halui_connected (stat_of 0 RCS_DONE)"
  let ?ps = "[(1, 0), (1, 0), (0, 1), (1 :: hal_bit_t, 1 :: hal_bit_t)]"
  have b: "emcCommandBuffer ?t \<and> emcStatus ?t \<noteq> None \<and>
        (emcWaitType ?t = EMC_WAIT_NONE \<or>
         0 < emcTimeout ?t \<and> \<not> dval (wait_counter double_zero 11) < emcTimeout ?t)"
    using wait_counter_reaches_1 by (simp add: scenario_defs)
  from rising_edge_dispatches_once [where w = ?v and ps = ?qs and s = ?t and n = 11] b
  obtain t' where q: "main_loop_cycles ?v ?qs ?t = Some (Return (), t')" by blast
  have zt: "dispatch_count EMC_TASK_STATE_ON ?t = 0" "dispatch_count EMC_TASK_STATE_OFF ?t = 0"
    "old_machine_on (old_halui_data ?t) = 0" "old_machine_off (old_halui_data ?t) = 0"
    by (simp_all add: dispatch_count_def dispatches_def scenario_defs)
  from rising_edge_dispatches_once [where w = ?v and ps = ?qs and s = ?t and s' = t'] q
  have "dispatch_count EMC_TASK_STATE_ON t' = 2 \<and> dispatch_count EMC_TASK_STATE_OFF t' = 1
      \<and> old_machine_on (old_halui_data t') = 1 \<and> old_machine_off (old_halui_data t') = 0"
    unfolding zt by (simp add: edge_def)
  then have r1: "\<exists>s'. main_loop_cycles ?v ?qs ?t = Some (Return (), s')
       \<and> dispatch_count EMC_TASK_STATE_ON s' = 2
       \<and> dispatch_count EMC_TASK_STATE_OFF s' = 1
       \<and> old_machine_on (old_halui_data s') = 1
       \<and> old_machine_off (old_halui_data s') = 0"
    using q by (intro exI [of _ t']) simp
  have "\<exists>s'. main_loop_cycles ?w ?ps ?s = Some (Return (), s')"
    by (simp add: run_defs world_three_commands_def scenario_defs)
  then obtain s' where r: "main_loop_cycles ?w ?ps ?s = Some (Return (), s')" by blast
  have z: "dispatch_count EMC_TASK_STATE_ON ?s = 0" "dispatch_count EMC_TASK_STATE_OFF ?s = 0"
    "old_machine_on (old_halui_data ?s) = 0" "old_machine_off (old_halui_data ?s) = 0"
    by (simp_all add: dispatch_count_def dispatches_def scenario_defs)
  have f: "map_option fst (sendMachineOn ?w (hal_write_inputs (1, 0) ?s)) = Some (Return (-1))"
    by (simp add: run_defs world_three_commands_def scenario_defs)
  from rising_edge_dispatches_once [where w = ?w and ps = ?ps and s = ?s and s' = s'] r
  have "dispatch_count EMC_TASK_STATE_ON s' = 2 \<and> dispatch_count EMC_TASK_STATE_OFF s' = 1
      \<and> old_machine_on (old_halui_data s') = 1 \<and> old_machine_off (old_halui_data s') = 1"
    unfolding z by (simp add: edge_def)
  then have r2: "\<exists>s'. main_loop_cycles ?w ?ps ?s = Some (Return (), s')
       \<and> dispatch_count EMC_TASK_STATE_ON s' = 2
       \<and> dispatch_count EMC_TASK_STATE_OFF s' = 1
       \<and> old_machine_on (old_halui_data s') = 1
       \<and> old_machine_off (old_halui_data s') = 1"
    using r by (intro exI [of _ s']) simp
  show ?thesis using r1 r2 f by blast
qed

text \<open>
  C4, as the code has it. The serial numbers assigned during any number of passes of
  the main loop that return are \<open>c + 1, c + 2, \<dots>\<close> in this order, \<open>c\<close> being the
  counter at the start (after start-up: the echoed serial number read from the status
  buffer), and the counter ends at \<open>c\<close> plus their number. As long as that sum stays
  below \<open>2 ^ 31\<close>, they are strictly increasing as signed integers, all greater than
  \<open>c\<close>, and no two are equal.
\<close>

theorem serial_numbers_increase_below_int_max:
  assumes "main_loop_cycles w ps s = Some (Return (), s')"
  shows "map snd (dispatches s') =
           map snd (dispatches s) @ serials_from (emcCommandSerialNumber s) (triggers s ps)
       \<and> emcCommandSerialNumber s' = emcCommandSerialNumber s + of_nat (triggers s ps)
       \<and> (sint (emcCommandSerialNumber s) + int (triggers s ps) < 2 ^ 31 \<longrightarrow>
            sorted_wrt (<) (map sint (serials_from (emcCommandSerialNumber s) (triggers s ps)))
          \<and> distinct (serials_from (emcCommandSerialNumber s) (triggers s ps))
          \<and> (\<forall>x \<in> set (serials_from (emcCommandSerialNumber s) (triggers s ps)).
                sint (emcCommandSerialNumber s) < sint x))"
proof (intro conjI impI)
  show "map snd (dispatches s') =
      map snd (dispatches s) @ serials_from (emcCommandSerialNumber s) (triggers s ps)"
    using main_loop_cycles_effect [OF assms] by blast
  show "emcCommandSerialNumber s' = emcCommandSerialNumber s + of_nat (triggers s ps)"
    using main_loop_cycles_effect [OF assms] by blast
next
  assume b: "sint (emcCommandSerialNumber s) + int (triggers s ps) < 2 ^ 31"
  note i = serials_from_increasing [OF b]
  show "sorted_wrt (<) (map sint (serials_from (emcCommandSerialNumber s) (triggers s ps)))"
    using i by blast
  then have "distinct (map sint (serials_from (emcCommandSerialNumber s) (triggers s ps)))"
    using strict_sorted_iff by blast
  then show "distinct (serials_from (emcCommandSerialNumber s) (triggers s ps))"
    by (simp add: distinct_map)
  show "\<forall>x \<in> set (serials_from (emcCommandSerialNumber s) (triggers s ps)).
                sint (emcCommandSerialNumber s) < sint x"
    using i by blast
qed

theorem serial_numbers_increase_below_int_max_witness:
  "\<exists>s'. main_loop_cycles world_error_then_done [(1, 0), (1, 0), (0, 0), (1, 0)]
           (halui_connected (stat_of 0 RCS_DONE)) = Some (Return (), s')
       \<and> map snd (dispatches s') = [1, 2]
       \<and> emcCommandSerialNumber s' = 2
       \<and> sorted_wrt (<) (map sint [1, 2 :: c_int])
       \<and> distinct [1, 2 :: c_int]"
proof -
  let ?w = "world_error_then_done"
  let ?s = "halui_connected (stat_of 0 RCS_DONE)"
  let ?ps = "[(1, 0), (1, 0), (0, 0), (1 :: hal_bit_t, 0 :: hal_bit_t)]"
  have "\<exists>s'. main_loop_cycles ?w ?ps ?s = Some (Return (), s')"
    by (simp add: run_defs world_error_then_done_def scenario_defs)
  then obtain s' where r: "main_loop_cycles ?w ?ps ?s = Some (Return (), s')" by blast
  have z: "dispatches ?s = []" "emcCommandSerialNumber ?s = 0"
    by (simp_all add: dispatches_def scenario_defs)
  have t: "triggers ?s ?ps = 2"
    by (simp add: triggers_def edge_def scenario_defs)
  have l: "serials_from (0 :: c_int) 2 = [1, 2]"
    by (simp add: eval_nat_numeral)
  have b: "sint (0 :: c_int) + int 2 < 2 ^ 31" by simp
  from serial_numbers_increase_below_int_max [OF r] b
  have "map snd (dispatches s') = [1, 2] \<and> emcCommandSerialNumber s' = 2
      \<and> sorted_wrt (<) (map sint [1, 2 :: c_int]) \<and> distinct [1, 2 :: c_int]"
    unfolding z t l by simp
  then show ?thesis using r by (intro exI [of _ s']) simp
qed

text \<open>
  C4 as the specification states it has no such bound. The whole program, from
  the static initial values: the channels connect at once, the controller's echoed
  serial number at start-up is \<open>2 ^ 31 - 2\<close>, then the pin for machine-on rises and in
  the next pass the pin for machine-off rises. The first dispatch gets \<open>2 ^ 31 - 1\<close>,
  the second one wraps to \<open>- 2 ^ 31\<close>: the serial numbers do not increase.
\<close>

theorem serial_number_wraps_at_int_max:
  "map_option (\<lambda>r. map (sint \<circ> snd) (dispatches (snd r)))
     (main_run world_wrap [(1, 0), (0, 1)] halui_static)
   = Some [2147483647, - 2147483648]"
  by (simp add: main_run_def main_startup_def tryNml_def tryNml_do_while.simps
        emcTaskNmlGet_def emcErrorNmlGet_def nml_debug_off_def hal_init_pins_def
        set_rcs_print_destination_def RETRY_TIME_def RETRY_INTERVAL_def
        run_defs world_wrap_def scenario_defs dispatches_def)

section \<open>Unit conversion\<close>

text \<open>
  C8. Under the policy Auto, with the program units reported as inches, the conversion
  returns what it returns under the explicit policy Inch, namely the millimetre value
  times \<open>INCH_PER_MM\<close>. The program units are read from the status buffer of the state
  the call is made in: with another status buffer in place, reporting millimetres, the
  same call returns the millimetre value.
\<close>

theorem convertLinearUnits_auto_inch:
  assumes "linearUnitConversion s = LINEAR_UNITS_AUTO"
    and "emcStatus s = Some st"
    and "task_programUnits st = CANON_UNITS_INCHES"
  shows "convertLinearUnits s u =
           convertLinearUnits (s\<lparr>linearUnitConversion := LINEAR_UNITS_INCH\<rparr>) u
       \<and> convertLinearUnits s u = Return (u / motion_traj_linearUnits st * INCH_PER_MM)
       \<and> (task_programUnits st' = CANON_UNITS_MM \<longrightarrow>
            convertLinearUnits (s\<lparr>emcStatus := Some st'\<rparr>) u
              = Return (u / motion_traj_linearUnits st'))"
  using assms by (simp add: convertLinearUnits_def)

theorem convertLinearUnits_auto_inch_witness:
  "convertLinearUnits (halui_connected (stat_of 0 RCS_DONE)) (254 / 10) =
     convertLinearUnits
       ((halui_connected (stat_of 0 RCS_DONE))\<lparr>linearUnitConversion := LINEAR_UNITS_INCH\<rparr>)
       (254 / 10)
   \<and> convertLinearUnits (halui_connected (stat_of 0 RCS_DONE)) (254 / 10) = Return 1
   \<and> convertLinearUnits
        ((halui_connected (stat_of 0 RCS_DONE))
           \<lparr>emcStatus := Some ((stat_of 0 RCS_DONE)\<lparr>task_programUnits := CANON_UNITS_MM\<rparr>)\<rparr>)
        (254 / 10) = Return (254 / 10)"
proof -
  have h1: "linearUnitConversion (halui_connected (stat_of 0 RCS_DONE)) = LINEAR_UNITS_AUTO"
    by (simp add: halui_connected_def halui_static_def)
  have h2: "emcStatus (halui_connected (stat_of 0 RCS_DONE)) = Some (stat_of 0 RCS_DONE)"
    by (simp add: halui_connected_def)
  have h3: "task_programUnits (stat_of 0 RCS_DONE) = CANON_UNITS_INCHES"
    by (simp add: stat_of_def)
  have v: "(254 / 10 :: real) / motion_traj_linearUnits (stat_of 0 RCS_DONE) * INCH_PER_MM = 1"
    by (simp add: stat_of_def INCH_PER_MM_def)
  have m: "task_programUnits ((stat_of 0 RCS_DONE)\<lparr>task_programUnits := CANON_UNITS_MM\<rparr>)
             = CANON_UNITS_MM"
          "motion_traj_linearUnits ((stat_of 0 RCS_DONE)\<lparr>task_programUnits := CANON_UNITS_MM\<rparr>)
             = 1"
    by (simp_all add: stat_of_def)
  from convertLinearUnits_auto_inch [OF h1 h2 h3, where u = "254 / 10"
      and st' = "(stat_of 0 RCS_DONE)\<lparr>task_programUnits := CANON_UNITS_MM\<rparr>"]
  show ?thesis unfolding v m by auto
qed

text \<open>
  C10. Under the policy Auto, when the program units are none of millimetres, inches and
  centimetres, the inner switch matches no case and the function falls through to its
  last statement: it returns the native input itself, not the millimetre value.
\<close>

theorem convertLinearUnits_auto_unknown_units:
  assumes "linearUnitConversion s = LINEAR_UNITS_AUTO"
    and "emcStatus s = Some st"
    and "task_programUnits st \<noteq> CANON_UNITS_MM"
    and "task_programUnits st \<noteq> CANON_UNITS_INCHES"
    and "task_programUnits st \<noteq> CANON_UNITS_CM"
  shows "convertLinearUnits s u = Return u"
  using assms by (cases "task_programUnits st") (simp_all add: convertLinearUnits_def)

theorem convertLinearUnits_auto_unknown_units_witness:
  "convertLinearUnits
     (halui_connected
        ((stat_of 0 RCS_DONE)\<lparr>task_programUnits := CANON_UNITS_other,
                               motion_traj_linearUnits := 1 / (254 / 10)\<rparr>)) 2 = Return 2"
proof -
  have h1: "linearUnitConversion
      (halui_connected
        ((stat_of 0 RCS_DONE)\<lparr>task_programUnits := CANON_UNITS_other,
                               motion_traj_linearUnits := 1 / (254 / 10)\<rparr>)) = LINEAR_UNITS_AUTO"
    by (simp add: halui_connected_def halui_static_def)
  have h2: "emcStatus
      (halui_connected
        ((stat_of 0 RCS_DONE)\<lparr>task_programUnits := CANON_UNITS_other,
                               motion_traj_linearUnits := 1 / (254 / 10)\<rparr>))
      = Some ((stat_of 0 RCS_DONE)\<lparr>task_programUnits := CANON_UNITS_other,
                               motion_traj_linearUnits := 1 / (254 / 10)\<rparr>)"
    by (simp add: halui_connected_def)
  have h3: "task_programUnits
      ((stat_of 0 RCS_DONE)\<lparr>task_programUnits := CANON_UNITS_other,
                             motion_traj_linearUnits := 1 / (254 / 10)\<rparr>) \<noteq> CANON_UNITS_MM"
    and h4: "task_programUnits
      ((stat_of 0 RCS_DONE)\<lparr>task_programUnits := CANON_UNITS_other,
                             motion_traj_linearUnits := 1 / (254 / 10)\<rparr>) \<noteq> CANON_UNITS_INCHES"
    and h5: "task_programUnits
      ((stat_of 0 RCS_DONE)\<lparr>task_programUnits := CANON_UNITS_other,
                             motion_traj_linearUnits := 1 / (254 / 10)\<rparr>) \<noteq> CANON_UNITS_CM"
    by (simp_all add: stat_of_def)
  show ?thesis by (rule convertLinearUnits_auto_unknown_units [OF h1 h2 h3 h4 h5])
qed

end
